theory Spec2Isabelle
  imports Complex_Main
begin

section \<open>Python values and built-ins used by \<^verbatim>\<open>services/qr_tools.py\<close>\<close>

text \<open>
  A Python \<^verbatim>\<open>str\<close> is a \<^typ>\<open>string\<close>, one \<^typ>\<open>char\<close> per character (so the
  characters of the model are the 256 values of \<^typ>\<open>char\<close>), and so is a \<^verbatim>\<open>bytes\<close>
  value; an \<^verbatim>\<open>int\<close> is an \<^typ>\<open>int\<close>; \<^verbatim>\<open>str | None\<close> is a \<^typ>\<open>string option\<close>. An
  exception that leaves a function is the \<open>Inl\<close> side of a sum. \<open>DataOverflowError\<close>
  stands for the exception of the QR library for data beyond the largest symbol,
  whatever its class in the version at hand.
\<close>

datatype py_exn =
    ValueError string
  | DataOverflowError
  | UnicodeEncodeError
  | UnicodeDecodeError
  | TypeError

text \<open>Truth value of an optional string: \<^verbatim>\<open>None\<close> and \<^verbatim>\<open>""\<close> are false.\<close>

definition truthy :: "string option \<Rightarrow> bool" where
  "truthy s = (s \<noteq> None \<and> s \<noteq> Some [])"

text \<open>\<^verbatim>\<open>range(i, stop, step)\<close> for a positive step, as the list of its values.\<close>

function py_range :: "nat \<Rightarrow> nat \<Rightarrow> nat \<Rightarrow> nat list" where
  "py_range i stop step =
     (if step = 0 \<or> stop \<le> i then [] else i # py_range (i + step) stop step)"
  by pat_completeness auto
termination
  by (relation "measure (\<lambda>(i, stop, step). stop - i)") auto

text \<open>\<^verbatim>\<open>str(n)\<close> of an integer: decimal digits, a minus sign when negative.\<close>

definition digit_char :: "nat \<Rightarrow> char" where
  "digit_char d = ''0123456789'' ! d"

fun str_nat :: "nat \<Rightarrow> string" where
  "str_nat n = (if n < 10 then [digit_char n] else str_nat (n div 10) @ [digit_char (n mod 10)])"

definition py_str :: "int \<Rightarrow> string" where
  "py_str i = (if i < 0 then CHR ''-'' # str_nat (nat (- i)) else str_nat (nat i))"

text \<open>
  \<^verbatim>\<open>int(s)\<close> of a string, base ten: white space around the number is stripped, one sign
  may lead, and the digits may be grouped by single underscores. \<open>None\<close> is the
  \<^verbatim>\<open>ValueError\<close>. The white space that \<^verbatim>\<open>int\<close> strips is, among the characters of the
  model, tab to carriage return, the space, U+0085 and U+00A0. (The interpreter's
  configurable limit on the number of digits is not part of the model.)
\<close>

definition is_digit :: "char \<Rightarrow> bool" where
  "is_digit c = (48 \<le> (of_char c :: nat) \<and> (of_char c :: nat) \<le> 57)"

definition digit_val :: "char \<Rightarrow> nat" where
  "digit_val c = of_char c - 48"

definition py_isspace :: "char \<Rightarrow> bool" where
  "py_isspace c =
     (let n = (of_char c :: nat)
      in (9 \<le> n \<and> n \<le> 13) \<or> n = 32 \<or> n = 133 \<or> n = 160)"

definition py_strip :: "string \<Rightarrow> string" where
  "py_strip s = rev (dropWhile py_isspace (rev (dropWhile py_isspace s)))"

fun digits_val :: "nat \<Rightarrow> string \<Rightarrow> nat option" where
  "digits_val acc [] = Some acc"
| "digits_val acc [c] = (if is_digit c then Some (10 * acc + digit_val c) else None)"
| "digits_val acc (c # d # cs) =
     (if is_digit c then digits_val (10 * acc + digit_val c) (d # cs)
      else if c = CHR ''_'' \<and> is_digit d then digits_val acc (d # cs)
      else None)"

definition unsigned_int :: "string \<Rightarrow> nat option" where
  "unsigned_int s =
     (case s of [] \<Rightarrow> None
      | c # cs \<Rightarrow> if is_digit c then digits_val 0 (c # cs) else None)"

definition py_int :: "string \<Rightarrow> int option" where
  "py_int s =
     (case py_strip s of
        [] \<Rightarrow> None
      | c # cs \<Rightarrow>
          if c = CHR ''-'' then map_option (\<lambda>n. - int n) (unsigned_int cs)
          else if c = CHR ''+'' then map_option int (unsigned_int cs)
          else map_option int (unsigned_int (c # cs)))"

text \<open>\<^verbatim>\<open>s.split(sep, maxsplit)\<close> for a separator of one character.\<close>

fun py_split :: "char \<Rightarrow> nat \<Rightarrow> string \<Rightarrow> string list" where
  "py_split sep 0 s = [s]"
| "py_split sep (Suc n) s =
     (if sep \<in> set s
      then takeWhile (\<lambda>c. c \<noteq> sep) s # py_split sep n (tl (dropWhile (\<lambda>c. c \<noteq> sep) s))
      else [s])"

text \<open>\<^verbatim>\<open>sep.join(xs)\<close> and the \<^verbatim>\<open>repr\<close> of a list of integers, as an f-string prints it.\<close>

fun py_join :: "string \<Rightarrow> string list \<Rightarrow> string" where
  "py_join sep [] = []"
| "py_join sep [x] = x"
| "py_join sep (x # y # ys) = x @ sep @ py_join sep (y # ys)"

definition py_repr_list :: "int list \<Rightarrow> string" where
  "py_repr_list xs = ''['' @ py_join '', '' (map py_str xs) @ '']''"

section \<open>The libraries the service calls\<close>

text \<open>
  A value that \<^verbatim>\<open>json.loads\<close> can return; an object is the list of its items, looked
  up by key with \<^const>\<open>map_of\<close>.
\<close>

datatype json =
    JNull
  | JBool bool
  | JInt int
  | JFloat string
  | JString string
  | JArray "json list"
  | JObject "(string \<times> json) list"

text \<open>
  What \<^verbatim>\<open>Fernet.decrypt\<close> followed by \<^verbatim>\<open>.decode("utf-8")\<close> gives: the token is
  rejected (\<^verbatim>\<open>InvalidToken\<close>), or it is accepted and its plaintext is or is not UTF-8.
\<close>

datatype fernet_result = InvalidToken | NotUtf8 | Plaintext string

text \<open>
  One tile of the output image: the string its QR symbol carries and the label
  stamped beneath it. The image is the list of its tiles, in the order they are
  pasted on the grid.
\<close>

record tile =
  qr_data :: string
  label :: "string option"

type_synonym image = "tile list"

text \<open>
  The data of one scanned symbol after \<^verbatim>\<open>symbol.data.decode("utf-8")\<close>; \<open>None\<close> when
  the bytes are not UTF-8.
\<close>

type_synonym symbol = "string option"

type_synonym bytes = string

text \<open>
  The library functions are parameters of the model, gathered in one record:
  \<^item> \<open>encode_utf8 s\<close> is \<^verbatim>\<open>s.encode("utf-8")\<close>, with \<open>None\<close> for the
    \<^verbatim>\<open>UnicodeEncodeError\<close> that a \<^verbatim>\<open>str\<close> with a lone surrogate raises; which strings
    of the model stand for such a \<^verbatim>\<open>str\<close> is left to this parameter;
  \<^item> \<open>sha256_hexdigest b\<close> is \<^verbatim>\<open>hashlib.sha256(b).hexdigest()\<close>, and
    \<open>sha256_digest b\<close> the same with \<^verbatim>\<open>.digest()\<close>;
  \<^item> \<open>urlsafe_b64encode\<close> is \<^verbatim>\<open>base64.urlsafe_b64encode\<close>;
  \<^item> \<open>fernet_encrypt key b\<close> is \<^verbatim>\<open>Fernet(key).encrypt(b).decode("utf-8")\<close> as it came
    out in the call at hand (a token is made of ASCII characters), and
    \<open>fernet_decrypt key b\<close> is \<^verbatim>\<open>Fernet(key).decrypt(b).decode("utf-8")\<close>;
  \<^item> \<open>json_dumps\<close> is \<^verbatim>\<open>json.dumps(obj, ensure_ascii=False)\<close>, \<open>json_loads\<close> is
    \<^verbatim>\<open>json.loads\<close> with \<open>None\<close> for any exception;
  \<^item> \<open>uuid4_hex\<close> is the value of \<^verbatim>\<open>uuid.uuid4().hex\<close> in the call at hand;
  \<^item> \<open>qr_fits data\<close> tells whether the QR library can fit \<open>data\<close> into one symbol
    at error correction level Q;
  \<^item> \<open>decode_qr\<close> is the scanner \<^verbatim>\<open>pyzbar.decode\<close>.
\<close>

record env =
  encode_utf8 :: "string \<Rightarrow> bytes option"
  sha256_hexdigest :: "bytes \<Rightarrow> string"
  sha256_digest :: "bytes \<Rightarrow> bytes"
  urlsafe_b64encode :: "bytes \<Rightarrow> bytes"
  fernet_encrypt :: "bytes \<Rightarrow> bytes \<Rightarrow> string"
  fernet_decrypt :: "bytes \<Rightarrow> bytes \<Rightarrow> fernet_result"
  json_dumps :: "json \<Rightarrow> string"
  json_loads :: "string \<Rightarrow> json option"
  uuid4_hex :: string
  qr_fits :: "string \<Rightarrow> bool"
  decode_qr :: "image \<Rightarrow> symbol list"

section \<open>Helpers\<close>

definition chunk_text :: "string \<Rightarrow> int \<Rightarrow> py_exn + string list" where
  "chunk_text text sz =
     (if sz \<le> 0 then Inl (ValueError ''chunk_size must be positive'')
      else Inr (map (\<lambda>i. take (nat sz) (drop i text))
                  (py_range 0 (length text) (nat sz))))"

definition make_qr_image :: "env \<Rightarrow> string \<Rightarrow> py_exn + tile" where
  "make_qr_image e data =
     (if qr_fits e data then Inr \<lparr>qr_data = data, label = None\<rparr> else Inl DataOverflowError)"

definition add_index_label :: "tile \<Rightarrow> nat \<Rightarrow> nat \<Rightarrow> tile" where
  "add_index_label img index n =
     img\<lparr>label := Some (py_str (int index + 1) @ ''/'' @ py_str (int n))\<rparr>"

definition tile_images :: "tile list \<Rightarrow> py_exn + image" where
  "tile_images images =
     (if images = [] then Inl (ValueError ''No images to tile'') else Inr images)"

section \<open>Encryption helpers\<close>

definition get_fernet :: "env \<Rightarrow> string \<Rightarrow> py_exn + bytes" where
  "get_fernet e passphrase =
     (case encode_utf8 e passphrase of
        None \<Rightarrow> Inl UnicodeEncodeError
      | Some b \<Rightarrow> Inr (urlsafe_b64encode e (sha256_digest e b)))"

definition maybe_encrypt :: "env \<Rightarrow> string \<Rightarrow> string option \<Rightarrow> py_exn + string" where
  "maybe_encrypt e text passphrase =
     (case passphrase of
        None \<Rightarrow> Inr text
      | Some p \<Rightarrow>
          if p = [] then Inr text
          else (case get_fernet e p of
                  Inl ex \<Rightarrow> Inl ex
                | Inr f \<Rightarrow>
                    (case encode_utf8 e text of
                       None \<Rightarrow> Inl UnicodeEncodeError
                     | Some b \<Rightarrow> Inr (fernet_encrypt e f b))))"

text \<open>
  In \<^verbatim>\<open>maybe_decrypt\<close> the \<^verbatim>\<open>except\<close> clause catches \<^verbatim>\<open>InvalidToken\<close> only: an error of
  encoding the token or of decoding the plaintext leaves the function.
\<close>

definition maybe_decrypt ::
  "env \<Rightarrow> string \<Rightarrow> string option \<Rightarrow> py_exn + (string option \<times> string option)" where
  "maybe_decrypt e text passphrase =
     (case passphrase of
        None \<Rightarrow> Inr (Some text, None)
      | Some p \<Rightarrow>
          if p = [] then Inr (Some text, None)
          else (case get_fernet e p of
                  Inl ex \<Rightarrow> Inl ex
                | Inr f \<Rightarrow>
                    (case encode_utf8 e text of
                       None \<Rightarrow> Inl UnicodeEncodeError
                     | Some b \<Rightarrow>
                         (case fernet_decrypt e f b of
                            Plaintext plain \<Rightarrow> Inr (Some plain, None)
                          | NotUtf8 \<Rightarrow> Inl UnicodeDecodeError
                          | InvalidToken \<Rightarrow>
                              Inr (None,
                                Some ''Decryption failed. Wrong passphrase or corrupted data.'')))))"

section \<open>Checksum helpers\<close>

definition wrap_payload_with_checksum :: "env \<Rightarrow> string \<Rightarrow> py_exn + string" where
  "wrap_payload_with_checksum e text =
     (case encode_utf8 e text of
        None \<Rightarrow> Inl UnicodeEncodeError
      | Some b \<Rightarrow>
          (let sha = sha256_hexdigest e b;
               obj = JObject [(''hash'', JString sha), (''text'', JString text)]
           in Inr (json_dumps e obj)))"

text \<open>
  In \<^verbatim>\<open>unwrap_and_verify_payload\<close> only \<^verbatim>\<open>json.loads\<close> stands in a \<^verbatim>\<open>try\<close>: an error
  of encoding the text, when its hash is computed again, leaves the function.
\<close>

definition unwrap_and_verify_payload ::
  "env \<Rightarrow> string \<Rightarrow> py_exn + (string option \<times> string option \<times> string option)" where
  "unwrap_and_verify_payload e payload =
     (case json_loads e payload of
        None \<Rightarrow> Inr (Some payload, None, None)
      | Some (JObject obj) \<Rightarrow>
          (case (map_of obj ''hash'', map_of obj ''text'') of
             (Some (JString sha_stored), Some (JString text)) \<Rightarrow>
               (case encode_utf8 e text of
                  None \<Rightarrow> Inl UnicodeEncodeError
                | Some b \<Rightarrow>
                    (let sha_calc = sha256_hexdigest e b
                     in if sha_calc \<noteq> sha_stored
                        then Inr (None, Some sha_stored,
                               Some ''Integrity check failed (SHA-256 mismatch)'')
                        else Inr (Some text, Some sha_stored, None)))
           | _ \<Rightarrow> Inr (Some payload, None, None))
      | Some _ \<Rightarrow> Inr (Some payload, None, None))"

section \<open>Encode\<close>

definition frame_string :: "string \<Rightarrow> nat \<Rightarrow> nat \<Rightarrow> string \<Rightarrow> string" where
  "frame_string msg_id idx n chunk =
     msg_id @ ''|'' @ py_str (int idx) @ ''|'' @ py_str (int n) @ ''|'' @ chunk"

text \<open>The loop of \<^verbatim>\<open>_build_big_qr_image\<close> over \<^verbatim>\<open>enumerate(chunks)\<close>.\<close>

fun build_images ::
  "env \<Rightarrow> string \<Rightarrow> nat \<Rightarrow> bool \<Rightarrow> (nat \<times> string) list \<Rightarrow> py_exn + tile list" where
  "build_images e msg_id n add_labels [] = Inr []"
| "build_images e msg_id n add_labels ((idx, chunk) # rest) =
     (case make_qr_image e (frame_string msg_id idx n chunk) of
        Inl ex \<Rightarrow> Inl ex
      | Inr img \<Rightarrow>
          (case build_images e msg_id n add_labels rest of
             Inl ex \<Rightarrow> Inl ex
           | Inr images \<Rightarrow>
               Inr ((if add_labels then add_index_label img idx n else img) # images)))"

definition build_big_qr_image :: "env \<Rightarrow> string \<Rightarrow> int \<Rightarrow> bool \<Rightarrow> py_exn + image" where
  "build_big_qr_image e payload chunk_size add_labels =
     (case chunk_text payload chunk_size of
        Inl ex \<Rightarrow> Inl ex
      | Inr chunks \<Rightarrow>
          (let msg_id = take 8 (uuid4_hex e);
               n = length chunks
           in case build_images e msg_id n add_labels (enumerate 0 chunks) of
                Inl ex \<Rightarrow> Inl ex
              | Inr images \<Rightarrow> tile_images images))"

text \<open>
  \<^verbatim>\<open>encode_text_to_big_qr_file\<close>; the result is the image that is then written out as
  PNG.
\<close>

definition encode_text_to_big_qr_file ::
  "env \<Rightarrow> string \<Rightarrow> int \<Rightarrow> string option \<Rightarrow> py_exn + image" where
  "encode_text_to_big_qr_file e text chunk_size passphrase =
     (case wrap_payload_with_checksum e text of
        Inl ex \<Rightarrow> Inl ex
      | Inr wrapped \<Rightarrow>
          (case maybe_encrypt e wrapped passphrase of
             Inl ex \<Rightarrow> Inl ex
           | Inr payload \<Rightarrow> build_big_qr_image e payload chunk_size True))"

section \<open>Decode\<close>

text \<open>
  The dictionary \<^verbatim>\<open>messages\<close> keeps its keys in the order of their insertion: it is a
  list of items with distinct keys. One item holds the \<^verbatim>\<open>total\<close> of the message and
  its \<^verbatim>\<open>parts\<close>, a dictionary from index to chunk.
\<close>

record msg_data =
  msg_total :: int
  msg_parts :: "int \<rightharpoonup> string"

type_synonym frame = "string \<times> int \<times> int \<times> string"

text \<open>
  The part of the loop body that can raise: decoding the data, splitting it and
  reading the two numbers. \<open>None\<close> is the \<^verbatim>\<open>continue\<close> of a wrong field count or of
  the \<^verbatim>\<open>except\<close> clause.
\<close>

definition parse_frame :: "symbol \<Rightarrow> frame option" where
  "parse_frame symbol =
     (case symbol of
        None \<Rightarrow> None
      | Some content \<Rightarrow>
          (case py_split CHR ''|'' 3 content of
             [msg_id, idx_str, total_str, chunk] \<Rightarrow>
               (case py_int idx_str of
                  None \<Rightarrow> None
                | Some idx \<Rightarrow>
                    (case py_int total_str of
                       None \<Rightarrow> None
                     | Some n \<Rightarrow> Some (msg_id, idx, n, chunk)))
           | _ \<Rightarrow> None))"

text \<open>The rest of the loop body: the two updates of \<^verbatim>\<open>messages\<close>.\<close>

fun store_frame :: "(string \<times> msg_data) list \<Rightarrow> frame \<Rightarrow> (string \<times> msg_data) list" where
  "store_frame messages (msg_id, idx, n, chunk) =
     (let messages1 =
            (if map_of messages msg_id = None
             then messages @ [(msg_id, \<lparr>msg_total = n, msg_parts = Map.empty\<rparr>)]
             else messages)
      in map (\<lambda>(k, d). if k = msg_id then (k, d\<lparr>msg_parts := (msg_parts d)(idx \<mapsto> chunk)\<rparr>)
                         else (k, d))
           messages1)"

definition process_symbol :: "(string \<times> msg_data) list \<Rightarrow> symbol \<Rightarrow> (string \<times> msg_data) list" where
  "process_symbol messages symbol =
     (case parse_frame symbol of None \<Rightarrow> messages | Some f \<Rightarrow> store_frame messages f)"

definition collect_messages :: "symbol list \<Rightarrow> (string \<times> msg_data) list" where
  "collect_messages decoded = foldl process_symbol [] decoded"

text \<open>
  What \<^verbatim>\<open>_decode_big_image\<close> does with the scanner's result. In the last line every
  index has just been found in \<^verbatim>\<open>parts\<close>, so no lookup fails.
\<close>

definition reassemble :: "symbol list \<Rightarrow> string option \<times> string option" where
  "reassemble decoded =
     (if decoded = [] then (None, Some ''No QR codes found.'')
      else
        (case collect_messages decoded of
           [] \<Rightarrow> (None, Some ''Invalid QR format.'')
         | (msg_id, data) # _ \<Rightarrow>
             (let n = msg_total data;
                  parts = msg_parts data;
                  missing = filter (\<lambda>i. parts i = None) [0..n - 1]
              in if missing \<noteq> []
                 then (None, Some (''Missing QR chunks: '' @ py_repr_list missing))
                 else (Some (concat (map (\<lambda>i. case parts i of Some c \<Rightarrow> c | None \<Rightarrow> [])
                                       [0..n - 1])), None))))"

definition decode_big_image :: "env \<Rightarrow> image \<Rightarrow> string option \<times> string option" where
  "decode_big_image e img = reassemble (decode_qr e img)"

text \<open>
  The uploaded file: \<^verbatim>\<open>Image.open\<close> raises with some message, or gives an image.
\<close>

datatype file_stream = NotAnImage string | ImageFile image

text \<open>
  \<^verbatim>\<open>decode_big_qr_to_text\<close>. A payload or a text that is \<^verbatim>\<open>None\<close> where no error
  came with it does not occur; the model raises there, as the next call would.
\<close>

definition decode_big_qr_to_text ::
  "env \<Rightarrow> file_stream \<Rightarrow> string option \<Rightarrow>
     py_exn + (string option \<times> string option \<times> string option)" where
  "decode_big_qr_to_text e file passphrase =
     (case file of
        NotAnImage msg \<Rightarrow> Inr (None, None, Some (''Invalid image: '' @ msg))
      | ImageFile img \<Rightarrow>
          (case decode_big_image e img of
             (payload, err) \<Rightarrow>
               if truthy err then Inr (None, None, err)
               else
                 (case payload of
                    None \<Rightarrow> Inl TypeError
                  | Some p \<Rightarrow>
                      (case maybe_decrypt e p passphrase of
                         Inl ex \<Rightarrow> Inl ex
                       | Inr (wrapped, dec_err) \<Rightarrow>
                           if truthy dec_err then Inr (None, None, dec_err)
                           else
                             (case wrapped of
                                None \<Rightarrow> Inl TypeError
                              | Some w \<Rightarrow>
                                  (case unwrap_and_verify_payload e w of
                                     Inl ex \<Rightarrow> Inl ex
                                   | Inr (text, sha_hex, verify_err) \<Rightarrow>
                                       if truthy verify_err then Inr (None, sha_hex, verify_err)
                                       else
                                         (case text of
                                            None \<Rightarrow> Inl TypeError
                                          | Some t \<Rightarrow> Inr (Some t, sha_hex, None))))))))"

section \<open>Describing what reassembly returns\<close>

text \<open>
  The frames of the scan are the symbols that parse, in scan order. For a message id,
  \<open>frames_of\<close> lists the index and chunk of each of its frames, and \<open>last_chunk\<close> gives
  for an index the chunk of the last frame of the message that carries it.
\<close>

definition scanned_frames :: "symbol list \<Rightarrow> frame list" where
  "scanned_frames decoded = List.map_filter parse_frame decoded"

definition frames_of :: "string \<Rightarrow> frame list \<Rightarrow> (int \<times> string) list" where
  "frames_of m fs = map (\<lambda>(m', i, n, c). (i, c)) (filter (\<lambda>(m', i, n, c). m' = m) fs)"

definition last_chunk :: "string \<Rightarrow> frame list \<Rightarrow> int \<Rightarrow> string option" where
  "last_chunk m fs = map_of (rev (frames_of m fs))"

section \<open>An instance of the libraries\<close>

text \<open>
  A small instance of the record of library functions, on which the service is run at
  concrete inputs: the character 255 stands for a lone surrogate, so that a string
  which holds it has no encoding and any other string is its own encoding; the hash of
  a byte string is its length in decimal, a token is the key, a colon and the
  plaintext, an envelope is written \<^verbatim>\<open>{hash,text}\<close>, and in its text the reader takes
  the character \<^verbatim>\<open>^\<close> for the escape of a lone surrogate, as \<^verbatim>\<open>json.loads\<close> takes the
  escape of U+D800; any string of at most 1663 characters fits a symbol, and the
  scanner returns the symbols of the tiles from the last to the first.
\<close>

definition demo_encode :: "string \<Rightarrow> bytes option" where
  "demo_encode s = (if CHR 0xFF \<in> set s then None else Some s)"

definition demo_unescape :: "string \<Rightarrow> string" where
  "demo_unescape s = map (\<lambda>c. if c = CHR ''^'' then CHR 0xFF else c) s"

definition demo_loads :: "string \<Rightarrow> json option" where
  "demo_loads s =
     (case s of
        [] \<Rightarrow> None
      | c # r \<Rightarrow>
          if c = CHR ''{'' \<and> CHR '','' \<in> set r \<and> last r = CHR ''}''
          then Some (JObject
                 [(''hash'', JString (takeWhile (\<lambda>x. x \<noteq> CHR '','') r)),
                  (''text'',
                   JString (demo_unescape (butlast (tl (dropWhile (\<lambda>x. x \<noteq> CHR '','') r)))))])
          else None)"

definition demo_dumps :: "json \<Rightarrow> string" where
  "demo_dumps j =
     (case j of
        JObject [(k1, JString a), (k2, JString b)] \<Rightarrow> ''{'' @ a @ '','' @ b @ ''}''
      | _ \<Rightarrow> ''null'')"

definition demo_decrypt :: "string \<Rightarrow> string \<Rightarrow> fernet_result" where
  "demo_decrypt key token =
     (if take (Suc (length key)) token = key @ '':''
      then Plaintext (drop (Suc (length key)) token) else InvalidToken)"

definition demo_env :: env where
  "demo_env =
     \<lparr>encode_utf8 = demo_encode,
      sha256_hexdigest = (\<lambda>s. str_nat (length s)),
      sha256_digest = rev,
      urlsafe_b64encode = (\<lambda>s. s),
      fernet_encrypt = (\<lambda>key text. key @ '':'' @ text),
      fernet_decrypt = demo_decrypt,
      json_dumps = demo_dumps,
      json_loads = demo_loads,
      uuid4_hex = ''3f2a9c0e5b714d18a6c2e09b7d4f1a35'',
      qr_fits = (\<lambda>data. length data \<le> 1663),
      decode_qr = (\<lambda>img. map (\<lambda>t. Some (qr_data t)) (rev img))\<rparr>"

section \<open>The chunker\<close>

declare py_range.simps [simp del]

lemma ceil_div_step:
  fixes n d :: nat
  assumes "0 < n" "0 < d"
  shows "(d + n - 1) div n = Suc ((d - n + n - 1) div n)"
proof (cases "n \<le> d")
  case True
  then obtain m where m: "d = m + n" by (metis le_add_diff_inverse2)
  obtain n' where n': "n = Suc n'" using assms by (cases n) auto
  have "(m + n + n - 1) div n = ((m + n') + n) div n" by (simp add: n')
  also have "\<dots> = Suc ((m + n') div n)" using assms by simp
  also have "m + n' = m + n - 1" by (simp add: n')
  finally show ?thesis by (simp add: m)
next
  case False
  then obtain m where m: "d = Suc m" "m < n" using assms by (cases d) auto
  have "(d + n - 1) div n = (m + n) div n" by (simp add: m)
  also have "\<dots> = Suc (m div n)" using assms by simp
  also have "\<dots> = Suc 0" using m by simp
  finally show ?thesis using False assms by simp
qed

lemma py_range_length:
  "0 < n \<Longrightarrow> length (py_range i stop n) = (stop - i + n - 1) div n"
proof (induction i stop n rule: py_range.induct)
  case (1 i stop n)
  show ?case
  proof (cases "stop \<le> i")
    case True
    with "1.prems" show ?thesis by (simp add: py_range.simps [of i stop n])
  next
    case False
    have ih: "length (py_range (i + n) stop n) = (stop - (i + n) + n - 1) div n"
      using "1.IH" "1.prems" False by simp
    have "(stop - i + n - 1) div n = Suc ((stop - i - n + n - 1) div n)"
      using ceil_div_step [of n "stop - i"] "1.prems" False by simp
    moreover have "stop - i - n = stop - (i + n)" by simp
    ultimately show ?thesis
      using ih False "1.prems" by (simp add: py_range.simps [of i stop n])
  qed
qed

lemma py_range_nth:
  "0 < n \<Longrightarrow> k < length (py_range i stop n) \<Longrightarrow> py_range i stop n ! k = i + k * n"
proof (induction i stop n arbitrary: k rule: py_range.induct)
  case (1 i stop n)
  show ?case
  proof (cases "stop \<le> i")
    case True
    with "1.prems" show ?thesis by (simp add: py_range.simps [of i stop n])
  next
    case False
    then have unf: "py_range i stop n = i # py_range (i + n) stop n"
      using "1.prems" by (simp add: py_range.simps [of i stop n])
    show ?thesis
    proof (cases k)
      case 0
      then show ?thesis by (simp add: unf)
    next
      case (Suc k')
      then have "k' < length (py_range (i + n) stop n)" using "1.prems" unf by simp
      then have "py_range (i + n) stop n ! k' = i + n + k' * n"
        using "1.IH" "1.prems" False by simp
      then show ?thesis by (simp add: unf Suc)
    qed
  qed
qed

lemma py_range_bound:
  "j \<in> set (py_range i stop n) \<Longrightarrow> j < stop"
proof (induction i stop n rule: py_range.induct)
  case (1 i stop n)
  then show ?case
    by (cases "n = 0 \<or> stop \<le> i") (auto simp: py_range.simps [of i stop n])
qed

lemma concat_slices:
  "0 < n \<Longrightarrow> concat (map (\<lambda>i. take n (drop i text)) (py_range i (length text) n)) = drop i text"
proof (induction i "length text" n rule: py_range.induct)
  case (1 i n)
  show ?case
  proof (cases "length text \<le> i")
    case True
    then show ?thesis using "1.prems" by (simp add: py_range.simps [of i "length text" n])
  next
    case False
    then have "concat (map (\<lambda>i. take n (drop i text)) (py_range (i + n) (length text) n))
        = drop (i + n) text"
      using "1.hyps" "1.prems" by simp
    moreover have "take n (drop i text) @ drop (i + n) text = drop i text"
      by (metis add.commute append_take_drop_id drop_drop)
    ultimately show ?thesis
      using False "1.prems" by (simp add: py_range.simps [of i "length text" n])
  qed
qed

lemma ceil_as_div:
  fixes a n :: nat
  assumes "0 < n"
  shows "\<lceil>real a / real n\<rceil> = int ((a + n - 1) div n)"
proof -
  define q where "q = (a + n - 1) div n"
  define r where "r = (a + n - 1) mod n"
  have split: "q * n + r = a + n - 1" by (simp add: q_def r_def)
  have r: "r < n" using assms by (simp add: r_def)
  have up: "a \<le> q * n" using split r assms by linarith
  have lo: "q * n < a + n" using split assms by linarith
  have "real a \<le> real (q * n)" using up by (simp only: of_nat_le_iff)
  then have 1: "real a / real n \<le> real q" using assms by (simp add: pos_divide_le_eq)
  have "real (q * n) < real (a + n)" using lo by (simp only: of_nat_less_iff)
  then have "(real q - 1) * real n < real a" by (simp add: algebra_simps)
  then have 2: "real q - 1 < real a / real n" using assms by (simp add: pos_less_divide_eq)
  have "\<lceil>real a / real n\<rceil> = int q"
    by (rule ceiling_unique) (use 1 2 in simp_all)
  then show ?thesis by (simp add: q_def)
qed

lemma slices_props:
  fixes payload :: string and n :: nat
  assumes n: "0 < n"
  defines "chunks \<equiv> map (\<lambda>i. take n (drop i payload)) (py_range 0 (length payload) n)"
  shows "concat chunks = payload"
    and "length chunks = (length payload + n - 1) div n"
    and "k < length chunks \<Longrightarrow> chunks ! k = take n (drop (k * n) payload)"
    and "k < length chunks \<Longrightarrow> k * n < length payload"
proof -
  show "concat chunks = payload" using concat_slices [OF n, of payload 0] by (simp add: chunks_def)
  show len: "length chunks = (length payload + n - 1) div n"
    using py_range_length [OF n, of 0 "length payload"] by (simp add: chunks_def)
  {
    assume k: "k < length chunks"
    then have k': "k < length (py_range 0 (length payload) n)" by (simp add: chunks_def)
    have nth: "py_range 0 (length payload) n ! k = k * n"
      using py_range_nth [OF n k'] by simp
    show "chunks ! k = take n (drop (k * n) payload)"
      using k' nth by (simp add: chunks_def)
    have "py_range 0 (length payload) n ! k \<in> set (py_range 0 (length payload) n)"
      using k' by simp
    then show "k * n < length payload" using py_range_bound nth by metis
  }
qed

lemma chunk_text_single:
  fixes payload :: string
  assumes "0 < sz" and "payload \<noteq> []" and "int (length payload) \<le> sz"
  shows "chunk_text payload sz = Inr [payload]"
proof -
  have "py_range 0 (length payload) (nat sz) = [0]"
    using assms by (simp add: py_range.simps [of 0] py_range.simps [of "nat sz"])
  then show ?thesis using assms by (simp add: chunk_text_def)
qed

lemma py_str_0_1: "py_str 0 = ''0''" "py_str 1 = ''1''"
  by (simp_all add: py_str_def digit_char_def)

lemma build_big_qr_image_unfold:
  "build_big_qr_image e payload sz True =
     (case chunk_text payload sz of Inl ex \<Rightarrow> Inl ex
      | Inr chunks \<Rightarrow>
         (case build_images e (take 8 (uuid4_hex e)) (length chunks) True (enumerate 0 chunks) of
            Inl ex \<Rightarrow> Inl ex | Inr images \<Rightarrow> tile_images images))"
  by (simp add: build_big_qr_image_def Let_def split: sum.splits)

text \<open>
  Claim C9, as the code has it. For a positive chunk size the chunker returns the
  contiguous slices of the payload: their concatenation is the payload, there are
  \<open>ceil(len(payload) / chunk_size)\<close> of them, slice \<open>k\<close> starts at \<open>k * chunk_size\<close>, is not
  empty and has at most \<open>chunk_size\<close> characters, and every slice but the last has
  exactly \<open>chunk_size\<close>. When the payload is not empty and \<open>chunk_size \<ge> len(payload)\<close>
  there is exactly one slice, the payload, and the image built from it has one symbol,
  whose frame carries index 0 and total 1 (or the QR library refuses the frame).
  The empty payload has no slice at all.
\<close>

theorem chunk_text_slices:
  fixes payload :: string and sz :: int
  assumes "0 < sz"
  shows "\<exists>chunks. chunk_text payload sz = Inr chunks
     \<and> concat chunks = payload
     \<and> int (length chunks) = \<lceil>real (length payload) / real_of_int sz\<rceil>
     \<and> (\<forall>k < length chunks.
            chunks ! k = take (nat sz) (drop (k * nat sz) payload)
          \<and> chunks ! k \<noteq> []
          \<and> int (length (chunks ! k)) \<le> sz
          \<and> (Suc k < length chunks \<longrightarrow> int (length (chunks ! k)) = sz))
     \<and> (payload \<noteq> [] \<and> int (length payload) \<le> sz \<longrightarrow>
            chunks = [payload]
          \<and> build_big_qr_image e payload sz True =
              (if qr_fits e (take 8 (uuid4_hex e) @ ''|0|1|'' @ payload)
               then Inr [\<lparr>qr_data = take 8 (uuid4_hex e) @ ''|0|1|'' @ payload,
                          label = Some ''1/1''\<rparr>]
               else Inl DataOverflowError))"
proof -
  define n where "n = nat sz"
  define chunks where
    "chunks = map (\<lambda>i. take n (drop i payload)) (py_range 0 (length payload) n)"
  have n: "0 < n" "int n = sz" using assms by (simp_all add: n_def)
  note props = slices_props [where payload = payload and n = n, OF n(1), folded chunks_def]
  have c1: "chunk_text payload sz = Inr chunks"
    using assms by (simp add: chunk_text_def chunks_def n_def)
  have c2: "concat chunks = payload" by (rule props)
  have len: "length chunks = (length payload + n - 1) div n" by (rule props)
  have c3: "int (length chunks) = \<lceil>real (length payload) / real_of_int sz\<rceil>"
    using ceil_as_div [OF n(1), of "length payload"] len n(2) by (metis of_int_of_nat_eq)
  have c4: "chunks ! k = take (nat sz) (drop (k * nat sz) payload)
          \<and> chunks ! k \<noteq> []
          \<and> int (length (chunks ! k)) \<le> sz
          \<and> (Suc k < length chunks \<longrightarrow> int (length (chunks ! k)) = sz)"
    if k: "k < length chunks" for k
  proof -
    have nth: "chunks ! k = take n (drop (k * n) payload)" using props(3) k by simp
    have b: "k * n < length payload" using props(4) k by simp
    have ne: "chunks ! k \<noteq> []" using nth b n by simp
    have le: "int (length (chunks ! k)) \<le> sz" using nth n by simp
    have full: "int (length (chunks ! k)) = sz" if "Suc k < length chunks"
    proof -
      have "Suc k * n < length payload" using props(4) [of "Suc k"] that by simp
      then have "n \<le> length payload - k * n" by simp
      then show ?thesis using nth n by simp
    qed
    show ?thesis using nth ne le full by (simp add: n_def)
  qed
  have c5: "chunks = [payload]
          \<and> build_big_qr_image e payload sz True =
              (if qr_fits e (take 8 (uuid4_hex e) @ ''|0|1|'' @ payload)
               then Inr [\<lparr>qr_data = take 8 (uuid4_hex e) @ ''|0|1|'' @ payload,
                          label = Some ''1/1''\<rparr>]
               else Inl DataOverflowError)"
    if ne: "payload \<noteq> []" and le: "int (length payload) \<le> sz"
  proof -
    obtain m where m: "length payload = Suc m" using ne by (cases payload) auto
    have "m < n" using le n m by simp
    then have "(length payload + n - 1) div n = 1" using n by (simp add: m)
    then have l1: "length chunks = 1" using len by simp
    then have "chunks = [chunks ! 0]" by (cases chunks) auto
    moreover have "chunks ! 0 = payload" using props(3) [of 0] l1 le n by simp
    ultimately have one: "chunks = [payload]" by simp
    show ?thesis
      by (simp add: one build_big_qr_image_unfold c1 [unfolded one] enumerate_simps make_qr_image_def
          frame_string_def py_str_0_1 add_index_label_def tile_images_def)
  qed
  show ?thesis using c1 c2 c3 c4 c5 by blast
qed

theorem chunk_text_slices_witness:
  "(0::int) < 4
   \<and> chunk_text ''hello world'' 4 = Inr [''hell'', ''o wo'', ''rld'']
   \<and> \<lceil>real (length ''hello world'') / real_of_int 4\<rceil> = 3
   \<and> ''hello'' \<noteq> [] \<and> int (length ''hello'') \<le> 8
   \<and> build_big_qr_image demo_env ''hello'' 8 True =
       Inr [\<lparr>qr_data = ''3f2a9c0e|0|1|hello'', label = Some ''1/1''\<rparr>]"
proof -
  have a: "(0::int) < 4" and b: "(0::int) < 8" by simp_all
  have c: "chunk_text ''hello world'' 4 = Inr [''hell'', ''o wo'', ''rld'']"
    by (simp add: chunk_text_def py_range.simps)
  from chunk_text_slices [OF a, of "''hello world''" demo_env] c
  have d: "\<lceil>real (length ''hello world'') / real_of_int 4\<rceil> = 3" by auto
  from chunk_text_slices [OF b, of "''hello''" demo_env]
  have e: "build_big_qr_image demo_env ''hello'' 8 True =
       Inr [\<lparr>qr_data = ''3f2a9c0e|0|1|hello'', label = Some ''1/1''\<rparr>]"
    by (auto simp: demo_env_def)
  show ?thesis using a c d e by simp
qed

text \<open>
  The claim as stated, for every payload, fails at the empty payload: a chunk size of 5
  is at least its length, and the chunker returns no fragment, so that no image is
  built from it.
\<close>

theorem chunk_text_empty_payload_counterexample:
  "int (length '''') \<le> 5
   \<and> chunk_text '''' 5 = Inr []
   \<and> build_big_qr_image demo_env '''' 5 True = Inl (ValueError ''No images to tile'')"
  by (simp add: chunk_text_def py_range.simps build_big_qr_image_def tile_images_def)

section \<open>The encryption wrapper\<close>

text \<open>
  Claim C10. The empty passphrase is treated as no passphrase: encryption returns the
  text unchanged, decryption returns the token unchanged with no error, and the encode
  and decode operations give what they give without a passphrase.
\<close>

theorem empty_passphrase_as_none:
  "maybe_encrypt e text (Some '''') = Inr text
   \<and> maybe_encrypt e text (Some '''') = maybe_encrypt e text None
   \<and> maybe_decrypt e token (Some '''') = Inr (Some token, None)
   \<and> maybe_decrypt e token (Some '''') = maybe_decrypt e token None
   \<and> encode_text_to_big_qr_file e text chunk_size (Some '''')
       = encode_text_to_big_qr_file e text chunk_size None
   \<and> decode_big_qr_to_text e file (Some '''') = decode_big_qr_to_text e file None"
proof -
  have enc: "maybe_encrypt e t (Some '''') = Inr t" "maybe_encrypt e t None = Inr t" for t
    by (simp_all add: maybe_encrypt_def)
  have dec: "maybe_decrypt e t (Some '''') = Inr (Some t, None)"
    "maybe_decrypt e t None = Inr (Some t, None)" for t
    by (simp_all add: maybe_decrypt_def)
  have "encode_text_to_big_qr_file e text chunk_size (Some '''')
       = encode_text_to_big_qr_file e text chunk_size None"
    by (simp only: encode_text_to_big_qr_file_def enc)
  moreover have "decode_big_qr_to_text e file (Some '''') = decode_big_qr_to_text e file None"
    by (simp only: decode_big_qr_to_text_def dec)
  ultimately show ?thesis by (simp only: enc dec)
qed

theorem empty_passphrase_as_none_witness:
  "maybe_encrypt demo_env ''secret text'' (Some '''') = Inr ''secret text''
   \<and> maybe_decrypt demo_env ''yek:secret text'' (Some '''') = Inr (Some ''yek:secret text'', None)"
  using empty_passphrase_as_none [of demo_env "''secret text''" "''yek:secret text''"]
  by simp

section \<open>The checksum envelope\<close>

lemma unwrap_object:
  assumes "json_loads e payload = Some (JObject obj)"
    and "map_of obj ''hash'' = Some (JString h)"
    and "map_of obj ''text'' = Some (JString t)"
  shows "unwrap_and_verify_payload e payload =
     (case encode_utf8 e t of
        None \<Rightarrow> Inl UnicodeEncodeError
      | Some b \<Rightarrow>
          Inr (if sha256_hexdigest e b \<noteq> h
               then (None, Some h, Some ''Integrity check failed (SHA-256 mismatch)'')
               else (Some t, Some h, None)))"
  using assms by (simp add: unwrap_and_verify_payload_def split: option.splits)

lemma unwrap_plain:
  assumes "json_loads e payload = None
     \<or> (\<exists>j. json_loads e payload = Some j \<and> (\<forall>obj. j \<noteq> JObject obj))
     \<or> (\<exists>obj. json_loads e payload = Some (JObject obj)
          \<and> \<not> ((\<exists>h. map_of obj ''hash'' = Some (JString h))
               \<and> (\<exists>t. map_of obj ''text'' = Some (JString t))))"
  shows "unwrap_and_verify_payload e payload = Inr (Some payload, None, None)"
  using assms
  by (auto simp: unwrap_and_verify_payload_def split: option.splits json.splits)

text \<open>
  When the payload parses as an object whose \<^verbatim>\<open>hash\<close> and \<^verbatim>\<open>text\<close> are strings and
  the text can be encoded, the hash of the text is computed again: on a mismatch the
  result is no text, the stored hash and the integrity error, otherwise the text, the
  stored hash and no error, and the decode operation returns that same triple.
\<close>

lemma unwrap_encodable_text:
  assumes "json_loads e payload = Some (JObject obj)"
    and "map_of obj ''hash'' = Some (JString h)"
    and "map_of obj ''text'' = Some (JString t)"
    and "encode_utf8 e t = Some b"
  shows "unwrap_and_verify_payload e payload =
       Inr (if sha256_hexdigest e b \<noteq> h
            then (None, Some h, Some ''Integrity check failed (SHA-256 mismatch)'')
            else (Some t, Some h, None))
     \<and> (\<forall>img p passphrase.
          decode_big_image e img = (Some p, None)
          \<longrightarrow> maybe_decrypt e p passphrase = Inr (Some payload, None)
          \<longrightarrow> decode_big_qr_to_text e (ImageFile img) passphrase =
              Inr (if sha256_hexdigest e b \<noteq> h
                   then (None, Some h, Some ''Integrity check failed (SHA-256 mismatch)'')
                   else (Some t, Some h, None)))"
  using unwrap_object [OF assms(1,2,3)] assms(4)
  by (simp add: decode_big_qr_to_text_def truthy_def)

text \<open>
  Claim C6 fails on the code. A payload can parse as an object whose \<^verbatim>\<open>hash\<close> and
  \<^verbatim>\<open>text\<close> are strings while the text cannot be encoded (it holds a lone surrogate,
  which an escape in the payload gives). Then the error of encoding it leaves
  \<^verbatim>\<open>unwrap_and_verify_payload\<close>: none of the two triples of the claim is returned, and
  the decode operation raises too, where its comment has the integrity mismatch for
  the only error that is left.
\<close>

theorem unwrap_raises_on_unencodable_text:
  assumes "json_loads e payload = Some (JObject obj)"
    and "map_of obj ''hash'' = Some (JString h)"
    and "map_of obj ''text'' = Some (JString t)"
    and "encode_utf8 e t = None"
  shows "unwrap_and_verify_payload e payload = Inl UnicodeEncodeError
     \<and> (\<forall>img p passphrase.
          decode_big_image e img = (Some p, None)
          \<longrightarrow> maybe_decrypt e p passphrase = Inr (Some payload, None)
          \<longrightarrow> decode_big_qr_to_text e (ImageFile img) passphrase = Inl UnicodeEncodeError)"
  using unwrap_object [OF assms(1,2,3)] assms(4)
  by (simp add: decode_big_qr_to_text_def truthy_def)

theorem unwrap_raises_on_unencodable_text_witness:
  "encode_utf8 demo_env ''{abc,^}'' = Some ''{abc,^}''
   \<and> json_loads demo_env ''{abc,^}''
       = Some (JObject [(''hash'', JString ''abc''), (''text'', JString [CHR 0xFF])])
   \<and> encode_utf8 demo_env [CHR 0xFF] = None
   \<and> unwrap_and_verify_payload demo_env ''{abc,^}'' = Inl UnicodeEncodeError
   \<and> decode_big_image demo_env [\<lparr>qr_data = ''3f2a9c0e|0|1|{abc,^}'', label = Some ''1/1''\<rparr>]
       = (Some ''{abc,^}'', None)
   \<and> decode_big_qr_to_text demo_env
         (ImageFile [\<lparr>qr_data = ''3f2a9c0e|0|1|{abc,^}'', label = Some ''1/1''\<rparr>]) None
       = Inl UnicodeEncodeError"
proof -
  let ?obj = "[(''hash'', JString ''abc''), (''text'', JString [CHR 0xFF])]"
  let ?img = "[\<lparr>qr_data = ''3f2a9c0e|0|1|{abc,^}'', label = Some ''1/1''\<rparr>]"
  have p: "encode_utf8 demo_env ''{abc,^}'' = Some ''{abc,^}''"
    by (simp add: demo_env_def demo_encode_def)
  have l: "json_loads demo_env ''{abc,^}'' = Some (JObject ?obj)"
    by (simp add: demo_env_def demo_loads_def demo_unescape_def)
  have h: "map_of ?obj ''hash'' = Some (JString ''abc'')"
    "map_of ?obj ''text'' = Some (JString [CHR 0xFF])"
    by simp_all
  have n: "encode_utf8 demo_env [CHR 0xFF] = None"
    by (simp add: demo_env_def demo_encode_def)
  have d: "decode_big_image demo_env ?img = (Some ''{abc,^}'', None)"
    by code_simp
  have m: "maybe_decrypt demo_env ''{abc,^}'' None = Inr (Some ''{abc,^}'', None)"
    by (simp add: maybe_decrypt_def)
  note t = unwrap_raises_on_unencodable_text [OF l h n]
  from t [THEN conjunct2, rule_format, OF d m] t [THEN conjunct1] p l n d
  show ?thesis by simp
qed

text \<open>
  Claim C7. A payload that does not parse as JSON, or parses to something that is not
  an object, or to an object whose \<^verbatim>\<open>hash\<close> and \<^verbatim>\<open>text\<close> are not both strings, is
  returned unchanged, with no hash and no error.
\<close>

theorem unwrap_legacy_plain_text:
  assumes "json_loads e payload = None
     \<or> (\<exists>j. json_loads e payload = Some j \<and> (\<forall>obj. j \<noteq> JObject obj))
     \<or> (\<exists>obj. json_loads e payload = Some (JObject obj)
          \<and> \<not> ((\<exists>h. map_of obj ''hash'' = Some (JString h))
               \<and> (\<exists>t. map_of obj ''text'' = Some (JString t))))"
  shows "unwrap_and_verify_payload e payload = Inr (Some payload, None, None)"
  using unwrap_plain [OF assms] .

theorem unwrap_legacy_plain_text_witness:
  "json_loads demo_env ''plain text'' = None
   \<and> unwrap_and_verify_payload demo_env ''plain text'' = Inr (Some ''plain text'', None, None)
   \<and> unwrap_and_verify_payload (demo_env\<lparr>json_loads := (\<lambda>s. Some (JArray []))\<rparr>) ''[]''
       = Inr (Some ''[]'', None, None)
   \<and> unwrap_and_verify_payload
         (demo_env\<lparr>json_loads :=
            (\<lambda>s. Some (JObject [(''hash'', JInt 1), (''text'', JString ''x'')]))\<rparr>) ''{1,x}''
       = Inr (Some ''{1,x}'', None, None)"
proof -
  let ?e2 = "demo_env\<lparr>json_loads := (\<lambda>s. Some (JArray []))\<rparr>"
  let ?e3 = "demo_env\<lparr>json_loads :=
            (\<lambda>s. Some (JObject [(''hash'', JInt 1), (''text'', JString ''x'')]))\<rparr>"
  have 1: "json_loads demo_env ''plain text'' = None"
    by (simp add: demo_env_def demo_loads_def)
  have 2: "\<exists>j. json_loads ?e2 ''[]'' = Some j \<and> (\<forall>obj. j \<noteq> JObject obj)"
    by simp
  have 3: "\<exists>obj. json_loads ?e3 ''{1,x}'' = Some (JObject obj)
          \<and> \<not> ((\<exists>h. map_of obj ''hash'' = Some (JString h))
               \<and> (\<exists>t. map_of obj ''text'' = Some (JString t)))"
    by simp
  have a: "unwrap_and_verify_payload demo_env ''plain text'' = Inr (Some ''plain text'', None, None)"
    by (rule unwrap_legacy_plain_text) (simp add: 1)
  have b: "unwrap_and_verify_payload ?e2 ''[]'' = Inr (Some ''[]'', None, None)"
    by (rule unwrap_legacy_plain_text) (use 2 in blast)
  have c: "unwrap_and_verify_payload ?e3 ''{1,x}'' = Inr (Some ''{1,x}'', None, None)"
    by (rule unwrap_legacy_plain_text) (use 3 in blast)
  show ?thesis using 1 a b c by simp
qed

section \<open>The frame codec\<close>

lemma split_at_first:
  assumes "sep \<in> set s"
  shows "s = takeWhile (\<lambda>c. c \<noteq> sep) s @ sep # tl (dropWhile (\<lambda>c. c \<noteq> sep) s)"
    and "sep \<notin> set (takeWhile (\<lambda>c. c \<noteq> sep) s)"
proof -
  have ne: "dropWhile (\<lambda>c. c \<noteq> sep) s \<noteq> []" using assms by (simp add: dropWhile_eq_Nil_conv)
  then have "hd (dropWhile (\<lambda>c. c \<noteq> sep) s) = sep" using hd_dropWhile [OF ne] by simp
  then have "dropWhile (\<lambda>c. c \<noteq> sep) s = sep # tl (dropWhile (\<lambda>c. c \<noteq> sep) s)"
    using ne by (metis list.collapse)
  then show "s = takeWhile (\<lambda>c. c \<noteq> sep) s @ sep # tl (dropWhile (\<lambda>c. c \<noteq> sep) s)"
    by (metis takeWhile_dropWhile_id)
  show "sep \<notin> set (takeWhile (\<lambda>c. c \<noteq> sep) s)"
    by (metis (mono_tags, lifting) set_takeWhileD)
qed

lemma py_split_field:
  assumes "sep \<notin> set a"
  shows "py_split sep (Suc n) (a @ sep # r) = a # py_split sep n r"
proof -
  have "takeWhile (\<lambda>c. c \<noteq> sep) (a @ sep # r) = a"
    using assms by (induction a) auto
  moreover have "dropWhile (\<lambda>c. c \<noteq> sep) (a @ sep # r) = sep # r"
    using assms by (induction a) auto
  ultimately show ?thesis by simp
qed

lemma py_split_frame:
  assumes "sep \<notin> set a" "sep \<notin> set b" "sep \<notin> set c"
  shows "py_split sep 3 (a @ sep # b @ sep # c @ sep # d) = [a, b, c, d]"
  using assms by (simp add: numeral_3_eq_3 py_split_field del: py_split.simps(2))

lemma py_split_Suc_cases:
  "py_split sep (Suc n) s = xs \<Longrightarrow>
     (sep \<notin> set s \<and> xs = [s])
     \<or> (\<exists>a r. s = a @ sep # r \<and> sep \<notin> set a \<and> xs = a # py_split sep n r)"
  using split_at_first [of sep s] by (auto split: if_splits)

lemma py_split_four:
  assumes "py_split sep 3 s = [a, b, c, d]"
  shows "s = a @ sep # b @ sep # c @ sep # d \<and> sep \<notin> set a \<and> sep \<notin> set b \<and> sep \<notin> set c"
proof -
  from assms have "py_split sep (Suc (Suc (Suc 0))) s = [a, b, c, d]"
    by (simp only: numeral_3_eq_3)
  from py_split_Suc_cases [OF this]
  obtain r1 where 1: "s = a @ sep # r1" "sep \<notin> set a" "py_split sep (Suc (Suc 0)) r1 = [b, c, d]"
    by auto
  from py_split_Suc_cases [OF 1(3)]
  obtain r2 where 2: "r1 = b @ sep # r2" "sep \<notin> set b" "py_split sep (Suc 0) r2 = [c, d]"
    by auto
  from py_split_Suc_cases [OF 2(3)]
  obtain r3 where 3: "r2 = c @ sep # r3" "sep \<notin> set c" "py_split sep 0 r3 = [d]"
    by auto
  from 3(3) have "r3 = d" by simp
  with 1 2 3 show ?thesis by simp
qed

lemma parse_frame_Some_iff:
  "parse_frame (Some content) = Some (m, i, n, c) \<longleftrightarrow>
     (\<exists>idx_str total_str.
        content = m @ ''|'' @ idx_str @ ''|'' @ total_str @ ''|'' @ c
        \<and> CHR ''|'' \<notin> set m \<and> CHR ''|'' \<notin> set idx_str \<and> CHR ''|'' \<notin> set total_str
        \<and> py_int idx_str = Some i \<and> py_int total_str = Some n)"
proof
  assume p: "parse_frame (Some content) = Some (m, i, n, c)"
  then obtain a b c' d where s: "py_split CHR ''|'' 3 content = [a, b, c', d]"
    by (auto simp: parse_frame_def split: list.splits)
  with p have ints: "py_int b = Some i" "py_int c' = Some n" and eq: "a = m" "d = c"
    by (auto simp: parse_frame_def split: option.splits)
  from py_split_four [OF s] ints eq show
    "\<exists>idx_str total_str.
        content = m @ ''|'' @ idx_str @ ''|'' @ total_str @ ''|'' @ c
        \<and> CHR ''|'' \<notin> set m \<and> CHR ''|'' \<notin> set idx_str \<and> CHR ''|'' \<notin> set total_str
        \<and> py_int idx_str = Some i \<and> py_int total_str = Some n"
    by auto
next
  assume "\<exists>idx_str total_str.
        content = m @ ''|'' @ idx_str @ ''|'' @ total_str @ ''|'' @ c
        \<and> CHR ''|'' \<notin> set m \<and> CHR ''|'' \<notin> set idx_str \<and> CHR ''|'' \<notin> set total_str
        \<and> py_int idx_str = Some i \<and> py_int total_str = Some n"
  then obtain b c' where
    c: "content = m @ CHR ''|'' # b @ CHR ''|'' # c' @ CHR ''|'' # c"
    and n: "CHR ''|'' \<notin> set m" "CHR ''|'' \<notin> set b" "CHR ''|'' \<notin> set c'"
    and ints: "py_int b = Some i" "py_int c' = Some n"
    by auto
  show "parse_frame (Some content) = Some (m, i, n, c)"
    by (simp add: parse_frame_def c py_split_frame [OF n] ints del: py_split.simps)
qed


declare str_nat.simps [simp del]

lemma digit_char_props:
  assumes "d < 10"
  shows "is_digit (digit_char d)" and "digit_val (digit_char d) = d"
    and "\<not> py_isspace (digit_char d)"
    and "digit_char d \<noteq> CHR ''-''" and "digit_char d \<noteq> CHR ''+''"
    and "digit_char d \<noteq> CHR ''|''"
proof -
  from assms have "d \<in> {0, 1, 2, 3, 4, 5, 6, 7, 8, 9}" by auto
  then show "is_digit (digit_char d)" and "digit_val (digit_char d) = d"
    and "\<not> py_isspace (digit_char d)"
    and "digit_char d \<noteq> CHR ''-''" and "digit_char d \<noteq> CHR ''+''"
    and "digit_char d \<noteq> CHR ''|''"
    by (auto simp: digit_char_def is_digit_def digit_val_def py_isspace_def)
qed

lemma str_nat_digits: "c \<in> set (str_nat n) \<Longrightarrow> \<exists>d<10. c = digit_char d"
proof (induction n rule: str_nat.induct)
  case (1 n)
  show ?case
  proof (cases "n < 10")
    case True
    with "1.prems" show ?thesis by (auto simp: str_nat.simps [of n])
  next
    case False
    with "1.prems" have "c \<in> set (str_nat (n div 10)) \<or> c = digit_char (n mod 10)"
      by (auto simp: str_nat.simps [of n])
    then show ?thesis
    proof
      assume "c \<in> set (str_nat (n div 10))"
      then show ?thesis using "1.IH" False by simp
    next
      assume "c = digit_char (n mod 10)"
      moreover have "n mod 10 < 10" by simp
      ultimately show ?thesis by blast
    qed
  qed
qed

lemma str_nat_not_Nil: "str_nat n \<noteq> []"
  by (simp add: str_nat.simps [of n])

lemma digits_val_snoc:
  assumes "\<forall>c\<in>set ds. is_digit c" and "is_digit d"
  shows "digits_val acc (ds @ [d]) =
     map_option (\<lambda>v. 10 * v + digit_val d) (digits_val acc ds)"
  using assms
proof (induction acc ds rule: digits_val.induct)
  case (1 acc)
  then show ?case by simp
next
  case (2 acc c)
  then show ?case by simp
next
  case (3 acc c d' cs)
  then show ?case by simp
qed

lemma digits_val_str_nat: "digits_val acc (str_nat n) = Some (acc * 10 ^ length (str_nat n) + n)"
proof (induction n arbitrary: acc rule: str_nat.induct)
  case (1 n)
  show ?case
  proof (cases "n < 10")
    case True
    then show ?thesis by (simp add: str_nat.simps [of n] digit_char_props)
  next
    case False
    have all: "\<forall>c\<in>set (str_nat (n div 10)). is_digit c"
      using str_nat_digits digit_char_props(1) by blast
    have last: "is_digit (digit_char (n mod 10))" by (simp add: digit_char_props)
    have "digits_val acc (str_nat n) =
        map_option (\<lambda>v. 10 * v + digit_val (digit_char (n mod 10)))
          (digits_val acc (str_nat (n div 10)))"
      using False digits_val_snoc [OF all last] by (simp add: str_nat.simps [of n])
    also have "\<dots> = Some (10 * (acc * 10 ^ length (str_nat (n div 10)) + n div 10) + n mod 10)"
      using "1.IH" [OF False] by (simp add: digit_char_props)
    also have "\<dots> = Some (acc * 10 ^ length (str_nat n) + n)"
      using False by (simp add: str_nat.simps [of n] algebra_simps)
    finally show ?thesis .
  qed
qed

lemma unsigned_int_str_nat: "unsigned_int (str_nat n) = Some n"
proof -
  obtain c cs where s: "str_nat n = c # cs" using str_nat_not_Nil by (cases "str_nat n") auto
  then have "is_digit c" using str_nat_digits [of c n] digit_char_props(1) by auto
  then show ?thesis
    using digits_val_str_nat [of 0 n] by (simp add: unsigned_int_def s)
qed

lemma py_strip_no_space:
  assumes "\<forall>c\<in>set s. \<not> py_isspace c"
  shows "py_strip s = s"
proof -
  have d: "dropWhile py_isspace xs = xs" if "\<forall>c\<in>set xs. \<not> py_isspace c" for xs
    using that by (cases xs) auto
  have "dropWhile py_isspace s = s" using assms by (rule d)
  moreover have "dropWhile py_isspace (rev s) = rev s" using assms by (intro d) simp
  ultimately show ?thesis by (simp add: py_strip_def)
qed

lemma py_int_py_str: "py_int (py_str i) = Some i"
proof (cases "i < 0")
  case True
  let ?ds = "str_nat (nat (- i))"
  have "\<forall>c\<in>set (CHR ''-'' # ?ds). \<not> py_isspace c"
    using str_nat_digits digit_char_props(3) by (auto simp: py_isspace_def)
  then have "py_strip (CHR ''-'' # ?ds) = CHR ''-'' # ?ds" by (rule py_strip_no_space)
  then show ?thesis using True by (simp add: py_int_def py_str_def unsigned_int_str_nat)
next
  case False
  let ?ds = "str_nat (nat i)"
  obtain c cs where s: "?ds = c # cs" using str_nat_not_Nil by (cases ?ds) auto
  have "\<forall>c\<in>set ?ds. \<not> py_isspace c"
    using str_nat_digits digit_char_props(3) by blast
  then have strip: "py_strip ?ds = ?ds" by (rule py_strip_no_space)
  have "c \<noteq> CHR ''-''" "c \<noteq> CHR ''+''"
    using str_nat_digits [of c "nat i"] digit_char_props(4,5) s by auto
  then show ?thesis
    using False unsigned_int_str_nat [of "nat i"]
    by (simp add: py_int_def py_str_def strip [unfolded s] s)
qed

lemma py_str_nat_no_bar: "CHR ''|'' \<notin> set (py_str (int n))"
  using str_nat_digits digit_char_props(6) by (fastforce simp: py_str_def)

lemma unsigned_int_has_digit: "unsigned_int s = Some v \<Longrightarrow> \<exists>c\<in>set s. is_digit c"
  by (auto simp: unsigned_int_def split: list.splits if_splits)

lemma py_strip_subset: "set (py_strip s) \<subseteq> set s"
proof -
  have "set (dropWhile P xs) \<subseteq> set xs" for P and xs :: string
    by (auto dest: set_dropWhileD)
  then have "set (py_strip s) \<subseteq> set (rev (dropWhile py_isspace s))"
    unfolding py_strip_def by (metis set_rev)
  then show ?thesis by (auto dest: set_dropWhileD)
qed

lemma py_int_has_digit:
  assumes "py_int s = Some v"
  shows "\<exists>c\<in>set s. is_digit c"
proof -
  from assms obtain c cs where st: "py_strip s = c # cs"
    by (auto simp: py_int_def split: list.splits)
  with assms have "(\<exists>u. unsigned_int cs = Some u) \<or> (\<exists>u. unsigned_int (c # cs) = Some u)"
    by (auto simp: py_int_def split: if_splits)
  then have "\<exists>x\<in>set (c # cs). is_digit x"
    using unsigned_int_has_digit by fastforce
  then show ?thesis using py_strip_subset [of s] st by auto
qed

section \<open>The reassembler\<close>

lemma foldl_process_symbol:
  "foldl process_symbol ms decoded = foldl store_frame ms (scanned_frames decoded)"
proof (induction decoded arbitrary: ms)
  case Nil
  then show ?case by (simp add: scanned_frames_def List.map_filter_simps)
next
  case (Cons s decoded)
  then show ?case
    by (cases "parse_frame s")
       (simp_all add: scanned_frames_def List.map_filter_simps process_symbol_def)
qed

lemma store_frame_head:
  assumes "m0 \<notin> fst ` set ms"
  shows "\<exists>ms'. store_frame ((m0, d) # ms) (m, i, n, c) =
            (m0, if m = m0 then d\<lparr>msg_parts := (msg_parts d)(i \<mapsto> c)\<rparr> else d) # ms'
          \<and> m0 \<notin> fst ` set ms'"
proof (cases "m = m0")
  case True
  have "map (\<lambda>(k, d). if k = m0 then (k, d\<lparr>msg_parts := (msg_parts d)(i \<mapsto> c)\<rparr>) else (k, d)) ms = ms"
    using assms by (induction ms) auto
  then show ?thesis using True assms by simp
next
  case False
  let ?upd = "\<lambda>(k, d). if k = m then (k, d\<lparr>msg_parts := (msg_parts d)(i \<mapsto> c)\<rparr>) else (k, d)"
  have keys: "fst ` set (map ?upd xs) = fst ` set xs" for xs :: "(string \<times> msg_data) list"
    by (induction xs) (auto split: if_splits)
  show ?thesis
    using False assms keys [of ms]
      keys [of "ms @ [(m, \<lparr>msg_total = n, msg_parts = Map.empty\<rparr>)]"]
    by (auto simp: Let_def)
qed

lemma foldl_store_frame_head:
  assumes "m0 \<notin> fst ` set ms"
  shows "\<exists>ms'. foldl store_frame ((m0, d) # ms) fs =
            (m0, d\<lparr>msg_parts := msg_parts d ++ last_chunk m0 fs\<rparr>) # ms'"
  using assms
proof (induction fs arbitrary: d ms)
  case Nil
  then show ?case by (simp add: last_chunk_def frames_of_def)
next
  case (Cons f fs)
  obtain m i n c where f: "f = (m, i, n, c)" by (cases f) auto
  let ?d1 = "if m = m0 then d\<lparr>msg_parts := (msg_parts d)(i \<mapsto> c)\<rparr> else d"
  from store_frame_head [OF Cons.prems, of d m i n c]
  obtain ms1 where 1: "store_frame ((m0, d) # ms) (m, i, n, c) = (m0, ?d1) # ms1"
    and k1: "m0 \<notin> fst ` set ms1" by blast
  from Cons.IH [OF k1, of ?d1]
  obtain ms' where 2: "foldl store_frame ((m0, ?d1) # ms1) fs =
      (m0, ?d1\<lparr>msg_parts := msg_parts ?d1 ++ last_chunk m0 fs\<rparr>) # ms'" by blast
  have parts: "msg_parts ?d1 ++ last_chunk m0 fs = msg_parts d ++ last_chunk m0 (f # fs)"
    by (rule ext) (simp add: f last_chunk_def frames_of_def map_add_def split: option.splits)
  have "?d1\<lparr>msg_parts := msg_parts ?d1 ++ last_chunk m0 fs\<rparr>
      = d\<lparr>msg_parts := msg_parts d ++ last_chunk m0 (f # fs)\<rparr>"
    unfolding parts [symmetric] by simp
  with 1 2 show ?case unfolding f by (simp del: store_frame.simps)
qed

lemma collect_messages_first:
  assumes "scanned_frames decoded = (m0, i0, n0, c0) # rest"
  shows "\<exists>ms'. collect_messages decoded =
     (m0, \<lparr>msg_total = n0, msg_parts = last_chunk m0 ((m0, i0, n0, c0) # rest)\<rparr>) # ms'"
proof -
  let ?d = "\<lparr>msg_total = n0, msg_parts = [i0 \<mapsto> c0]\<rparr>"
  have "collect_messages decoded = foldl store_frame [(m0, ?d)] rest"
    by (simp add: collect_messages_def foldl_process_symbol assms)
  moreover obtain ms' where "foldl store_frame ((m0, ?d) # []) rest =
      (m0, ?d\<lparr>msg_parts := msg_parts ?d ++ last_chunk m0 rest\<rparr>) # ms'"
    using foldl_store_frame_head [of m0 "[]" ?d rest] by auto
  moreover have "[i0 \<mapsto> c0] ++ last_chunk m0 rest = last_chunk m0 ((m0, i0, n0, c0) # rest)"
    by (simp add: last_chunk_def frames_of_def)
  ultimately show ?thesis by simp
qed

lemma collect_messages_none:
  assumes "scanned_frames decoded = []"
  shows "collect_messages decoded = []"
  by (simp add: collect_messages_def foldl_process_symbol assms)


lemma scanned_frames_Nil_iff:
  "scanned_frames decoded = [] \<longleftrightarrow> (\<forall>s\<in>set decoded. parse_frame s = None)"
  by (induction decoded)
     (auto simp: scanned_frames_def List.map_filter_simps split: option.splits)

lemma reassemble_selected:
  assumes "scanned_frames decoded = (m0, i0, n0, c0) # rest"
  shows "reassemble decoded =
     (let parts = last_chunk m0 (scanned_frames decoded);
          missing = filter (\<lambda>i. parts i = None) [0..n0 - 1]
      in if missing \<noteq> []
         then (None, Some (''Missing QR chunks: '' @ py_repr_list missing))
         else (Some (concat (map (\<lambda>i. case parts i of Some c \<Rightarrow> c | None \<Rightarrow> [])
                               [0..n0 - 1])), None))"
proof -
  have ne: "decoded \<noteq> []"
    using assms by (auto simp: scanned_frames_def List.map_filter_simps)
  from collect_messages_first [OF assms] obtain ms' where
    "collect_messages decoded =
       (m0, \<lparr>msg_total = n0, msg_parts = last_chunk m0 ((m0, i0, n0, c0) # rest)\<rparr>) # ms'"
    by blast
  then show ?thesis using ne by (simp add: reassemble_def assms Let_def)
qed

lemma scanned_frames_filter:
  "scanned_frames
     (filter (\<lambda>s. case parse_frame s of None \<Rightarrow> False | Some (m, i, n, c) \<Rightarrow> m = m0) decoded)
   = filter (\<lambda>(m, i, n, c). m = m0) (scanned_frames decoded)"
  by (induction decoded)
     (auto simp: scanned_frames_def List.map_filter_simps split: option.splits)

lemma frames_of_filter:
  "frames_of m0 (filter (\<lambda>(m, i, n, c). m = m0) fs) = frames_of m0 fs"
  by (simp add: frames_of_def)

lemma reassemble_ignores_others:
  assumes "scanned_frames decoded = (m0, i0, n0, c0) # rest"
  shows "reassemble
     (filter (\<lambda>s. case parse_frame s of None \<Rightarrow> False | Some (m, i, n, c) \<Rightarrow> m = m0) decoded)
   = reassemble decoded"
proof -
  let ?sel = "filter (\<lambda>s. case parse_frame s of None \<Rightarrow> False | Some (m, i, n, c) \<Rightarrow> m = m0) decoded"
  have f: "scanned_frames ?sel = (m0, i0, n0, c0) # filter (\<lambda>(m, i, n, c). m = m0) rest"
    by (simp add: scanned_frames_filter assms)
  have "last_chunk m0 (scanned_frames ?sel) = last_chunk m0 (scanned_frames decoded)"
    by (simp add: last_chunk_def scanned_frames_filter frames_of_filter)
  then show ?thesis
    by (simp only: reassemble_selected [OF f] reassemble_selected [OF assms])
qed

lemma those_present:
  assumes "filter (\<lambda>i. parts i = None) xs = []"
  shows "\<exists>chunks. map parts xs = map Some chunks
     \<and> concat (map (\<lambda>i. case parts i of Some c \<Rightarrow> c | None \<Rightarrow> []) xs) = concat chunks"
  using assms
proof (induction xs)
  case Nil
  then show ?case by simp
next
  case (Cons x xs)
  then obtain c where c: "parts x = Some c" by (cases "parts x") auto
  from Cons obtain chunks where "map parts xs = map Some chunks"
    "concat (map (\<lambda>i. case parts i of Some c \<Rightarrow> c | None \<Rightarrow> []) xs) = concat chunks"
    by (auto split: if_splits)
  then have "map parts (x # xs) = map Some (c # chunks)
     \<and> concat (map (\<lambda>i. case parts i of Some c \<Rightarrow> c | None \<Rightarrow> []) (x # xs)) = concat (c # chunks)"
    using c by simp
  then show ?case by blast
qed

text \<open>
  Claim C2. When at least one scanned string parses as a frame, the message that is
  reassembled is the one of the first frame in scan order, with the total of that
  frame. The missing indices are the indices of \<open>[0, total)\<close> that no frame of this
  message carries, in ascending order; when there are some, the result is the error
  that names them. Otherwise the result is the concatenation, in ascending index order,
  of the chunks of this message (for an index carried by several frames, the chunk of
  the last of them). Frames of any other message id do not matter: the result is the
  one for the scan without them.
\<close>

theorem reassemble_first_message:
  assumes "scanned_frames (decode_qr e img) = (m0, i0, n0, c0) # rest"
  shows
    "let frames = scanned_frames (decode_qr e img);
         missing = filter (\<lambda>i. i \<notin> fst ` set (frames_of m0 frames)) [0..n0 - 1]
     in sorted missing \<and> distinct missing
        \<and> set missing = {i. 0 \<le> i \<and> i < n0 \<and> i \<notin> fst ` set (frames_of m0 frames)}
        \<and> (if missing \<noteq> []
            then decode_big_image e img =
                   (None, Some (''Missing QR chunks: '' @ py_repr_list missing))
            else \<exists>chunks. map (last_chunk m0 frames) [0..n0 - 1] = map Some chunks
                   \<and> decode_big_image e img = (Some (concat chunks), None))
        \<and> decode_big_image e img =
            reassemble (filter (\<lambda>s. case parse_frame s of None \<Rightarrow> False
                                      | Some (m, i, n, c) \<Rightarrow> m = m0) (decode_qr e img))"
proof -
  define frames where "frames = scanned_frames (decode_qr e img)"
  define missing where
    "missing = filter (\<lambda>i. i \<notin> fst ` set (frames_of m0 frames)) [0..n0 - 1]"
  have none: "last_chunk m0 frames i = None \<longleftrightarrow> i \<notin> fst ` set (frames_of m0 frames)" for i
    by (simp add: last_chunk_def map_of_eq_None_iff)
  have missing': "missing = filter (\<lambda>i. last_chunk m0 frames i = None) [0..n0 - 1]"
    by (simp add: missing_def none)
  have 1: "sorted missing" by (simp add: missing_def sorted_wrt_filter)
  have 2: "distinct missing" by (simp add: missing_def)
  have 3: "set missing = {i. 0 \<le> i \<and> i < n0 \<and> i \<notin> fst ` set (frames_of m0 frames)}"
    by (auto simp: missing_def)
  have r: "decode_big_image e img =
      (if missing \<noteq> []
       then (None, Some (''Missing QR chunks: '' @ py_repr_list missing))
       else (Some (concat (map (\<lambda>i. case last_chunk m0 frames i of Some c \<Rightarrow> c | None \<Rightarrow> [])
                            [0..n0 - 1])), None))"
    using reassemble_selected [OF assms]
    by (simp add: decode_big_image_def Let_def missing' frames_def)
  have 4: "if missing \<noteq> []
      then decode_big_image e img = (None, Some (''Missing QR chunks: '' @ py_repr_list missing))
      else \<exists>chunks. map (last_chunk m0 frames) [0..n0 - 1] = map Some chunks
             \<and> decode_big_image e img = (Some (concat chunks), None)"
  proof (cases "missing = []")
    case True
    from those_present [OF True [unfolded missing']] r True show ?thesis by auto
  next
    case False
    then show ?thesis using r by simp
  qed
  have 5: "decode_big_image e img =
      reassemble (filter (\<lambda>s. case parse_frame s of None \<Rightarrow> False
                                | Some (m, i, n, c) \<Rightarrow> m = m0) (decode_qr e img))"
    using reassemble_ignores_others [OF assms] by (simp add: decode_big_image_def)
  show ?thesis
    unfolding Let_def frames_def [symmetric] missing_def [symmetric]
    using 1 2 3 4 5 by simp
qed

theorem reassemble_first_message_witness:
  "scanned_frames (decode_qr demo_env
      [\<lparr>qr_data = ''zz'', label = None\<rparr>,
       \<lparr>qr_data = ''ab|1|3|x|y'', label = None\<rparr>,
       \<lparr>qr_data = ''cd|0|1|q'', label = None\<rparr>,
       \<lparr>qr_data = ''ab|0|3|hh'', label = None\<rparr>])
     = [(''ab'', 0, 3, ''hh''), (''cd'', 0, 1, ''q''), (''ab'', 1, 3, ''x|y'')]
   \<and> decode_big_image demo_env
      [\<lparr>qr_data = ''zz'', label = None\<rparr>,
       \<lparr>qr_data = ''ab|1|3|x|y'', label = None\<rparr>,
       \<lparr>qr_data = ''cd|0|1|q'', label = None\<rparr>,
       \<lparr>qr_data = ''ab|0|3|hh'', label = None\<rparr>]
     = (None, Some ''Missing QR chunks: [2]'')
   \<and> scanned_frames (decode_qr demo_env
      [\<lparr>qr_data = ''ab|1|2|x|y'', label = None\<rparr>,
       \<lparr>qr_data = ''cd|0|1|q'', label = None\<rparr>,
       \<lparr>qr_data = ''ab|0|2|hh'', label = None\<rparr>])
     = [(''ab'', 0, 2, ''hh''), (''cd'', 0, 1, ''q''), (''ab'', 1, 2, ''x|y'')]
   \<and> decode_big_image demo_env
      [\<lparr>qr_data = ''ab|1|2|x|y'', label = None\<rparr>,
       \<lparr>qr_data = ''cd|0|1|q'', label = None\<rparr>,
       \<lparr>qr_data = ''ab|0|2|hh'', label = None\<rparr>]
     = (Some ''hhx|y'', None)"
proof -
  let ?img1 = "[\<lparr>qr_data = ''zz'', label = None\<rparr>,
       \<lparr>qr_data = ''ab|1|3|x|y'', label = None\<rparr>,
       \<lparr>qr_data = ''cd|0|1|q'', label = None\<rparr>,
       \<lparr>qr_data = ''ab|0|3|hh'', label = None\<rparr>]"
  let ?img2 = "[\<lparr>qr_data = ''ab|1|2|x|y'', label = None\<rparr>,
       \<lparr>qr_data = ''cd|0|1|q'', label = None\<rparr>,
       \<lparr>qr_data = ''ab|0|2|hh'', label = None\<rparr>]"
  have a1: "scanned_frames (decode_qr demo_env ?img1)
     = (''ab'', 0, 3, ''hh'') # [(''cd'', 0, 1, ''q''), (''ab'', 1, 3, ''x|y'')]"
    by code_simp
  have a2: "scanned_frames (decode_qr demo_env ?img2)
     = (''ab'', 0, 2, ''hh'') # [(''cd'', 0, 1, ''q''), (''ab'', 1, 2, ''x|y'')]"
    by code_simp
  have u3: "[0..(2::int)] = [0, 1, 2]" and u2: "[0..(1::int)] = [0, 1]"
    by (simp_all add: upto.simps)
  have s2: "py_repr_list [2] = ''[2]''" by code_simp
  have m1: "filter (\<lambda>i. i \<notin> fst ` set (frames_of ''ab''
        ((''ab'', 0, 3, ''hh'') # [(''cd'', 0, 1, ''q''), (''ab'', 1, 3, ''x|y'')]))) [0..3 - 1] = [2]"
    by (simp add: frames_of_def u3)
  have m2: "filter (\<lambda>i. i \<notin> fst ` set (frames_of ''ab''
        ((''ab'', 0, 2, ''hh'') # [(''cd'', 0, 1, ''q''), (''ab'', 1, 2, ''x|y'')]))) [0..2 - 1] = []"
    by (simp add: frames_of_def u2)
  note t1 = reassemble_first_message [OF a1, unfolded Let_def a1 m1,
      THEN conjunct2, THEN conjunct2, THEN conjunct2, THEN conjunct1]
  note t2 = reassemble_first_message [OF a2, unfolded Let_def a2 m2,
      THEN conjunct2, THEN conjunct2, THEN conjunct2, THEN conjunct1]
  from t1 have d1: "decode_big_image demo_env ?img1 = (None, Some ''Missing QR chunks: [2]'')"
    by (simp add: s2)
  from t2 obtain chunks where
    c: "map (last_chunk ''ab'' ((''ab'', 0, 2, ''hh'') # [(''cd'', 0, 1, ''q''), (''ab'', 1, 2, ''x|y'')]))
          [0..2 - 1] = map Some chunks"
    and d: "decode_big_image demo_env ?img2 = (Some (concat chunks), None)" by auto
  from c have "chunks = [''hh'', ''x|y'']"
    by (cases chunks) (auto simp: u2 last_chunk_def frames_of_def)
  with d have d2: "decode_big_image demo_env ?img2 = (Some ''hhx|y'', None)" by simp
  show ?thesis using a1 a2 d1 d2 by simp
qed

lemma process_symbol_skip:
  "parse_frame symbol = None \<Longrightarrow> process_symbol messages symbol = messages"
  by (simp add: process_symbol_def)

lemma collect_messages_skip:
  "parse_frame symbol = None \<Longrightarrow>
     collect_messages (before @ symbol # after) = collect_messages (before @ after)"
  by (simp add: collect_messages_def process_symbol_skip)

lemma reassemble_skip:
  assumes "parse_frame symbol = None" and "before @ after \<noteq> []"
  shows "reassemble (before @ symbol # after) = reassemble (before @ after)"
proof -
  have "reassemble (before @ symbol # after) =
      (case collect_messages (before @ after) of
         [] \<Rightarrow> (None, Some ''Invalid QR format.'')
       | (msg_id, data) # _ \<Rightarrow>
           (let n = msg_total data;
                parts = msg_parts data;
                missing = filter (\<lambda>i. parts i = None) [0..n - 1]
            in if missing \<noteq> []
               then (None, Some (''Missing QR chunks: '' @ py_repr_list missing))
               else (Some (concat (map (\<lambda>i. case parts i of Some c \<Rightarrow> c | None \<Rightarrow> [])
                                     [0..n - 1])), None)))"
    by (simp add: reassemble_def collect_messages_skip [OF assms(1)])
  also have "\<dots> = reassemble (before @ after)"
    using assms(2) by (simp only: reassemble_def if_False)
  finally show ?thesis .
qed

lemma reassemble_no_frames:
  assumes "decoded \<noteq> []" and "\<forall>s\<in>set decoded. parse_frame s = None"
  shows "reassemble decoded = (None, Some ''Invalid QR format.'')"
  using assms collect_messages_none [of decoded]
  by (simp add: reassemble_def scanned_frames_Nil_iff)

text \<open>
  Claim C8. When the scanner finds no symbol the decode fails with
  \<^verbatim>\<open>No QR codes found.\<close>; when it finds symbols of which none parses as a frame the
  decode fails with \<^verbatim>\<open>Invalid QR format.\<close>, a different error.
\<close>

theorem scan_error_kinds:
  "(decode_qr e img = [] \<longrightarrow>
      decode_big_image e img = (None, Some ''No QR codes found.'')
      \<and> decode_big_qr_to_text e (ImageFile img) passphrase
          = Inr (None, None, Some ''No QR codes found.''))
   \<and> (decode_qr e img \<noteq> [] \<and> (\<forall>s\<in>set (decode_qr e img). parse_frame s = None) \<longrightarrow>
      decode_big_image e img = (None, Some ''Invalid QR format.'')
      \<and> decode_big_qr_to_text e (ImageFile img) passphrase
          = Inr (None, None, Some ''Invalid QR format.''))
   \<and> ''No QR codes found.'' \<noteq> ''Invalid QR format.''"
proof -
  have 1: "decode_big_image e img = (None, Some ''No QR codes found.'')"
    if "decode_qr e img = []"
    using that by (simp add: decode_big_image_def reassemble_def)
  have 2: "decode_big_image e img = (None, Some ''Invalid QR format.'')"
    if "decode_qr e img \<noteq> []" "\<forall>s\<in>set (decode_qr e img). parse_frame s = None"
    using reassemble_no_frames [OF that] by (simp add: decode_big_image_def)
  have 3: "decode_big_qr_to_text e (ImageFile img) passphrase = Inr (None, None, Some msg)"
    if "decode_big_image e img = (None, Some msg)" "msg \<noteq> []" for msg
    using that by (simp add: decode_big_qr_to_text_def truthy_def)
  show ?thesis using 1 2 3 by simp
qed

theorem scan_error_kinds_witness:
  "decode_qr demo_env [] = []
   \<and> decode_big_qr_to_text demo_env (ImageFile []) None
       = Inr (None, None, Some ''No QR codes found.'')
   \<and> decode_qr demo_env [\<lparr>qr_data = ''https://example.org/a|b'', label = None\<rparr>]
       = [Some ''https://example.org/a|b'']
   \<and> parse_frame (Some ''https://example.org/a|b'') = None
   \<and> decode_big_qr_to_text demo_env
         (ImageFile [\<lparr>qr_data = ''https://example.org/a|b'', label = None\<rparr>]) None
       = Inr (None, None, Some ''Invalid QR format.'')"
proof -
  let ?img = "[\<lparr>qr_data = ''https://example.org/a|b'', label = None\<rparr>]"
  have a: "decode_qr demo_env [] = []" by (simp add: demo_env_def)
  have b: "decode_qr demo_env ?img = [Some ''https://example.org/a|b'']"
    by (simp add: demo_env_def)
  have c: "parse_frame (Some ''https://example.org/a|b'') = None" by code_simp
  have d: "decode_qr demo_env ?img \<noteq> [] \<and> (\<forall>s\<in>set (decode_qr demo_env ?img). parse_frame s = None)"
    by (simp add: b c)
  note t1 = scan_error_kinds [of demo_env "[]" None, THEN conjunct1, rule_format, OF a]
  note t2 = scan_error_kinds [of demo_env ?img None, THEN conjunct2, THEN conjunct1,
      rule_format, OF d]
  show ?thesis using a b c t1 t2 by simp
qed

text \<open>
  Claim C3, as the code has it. The frame string is split at the first three
  separators, so that the fourth field keeps every later separator. A frame is read
  exactly from the strings of the form \<open>id|index|total|chunk\<close> whose first three fields
  have no separator and whose index and total are accepted by \<^verbatim>\<open>int\<close>: a field with
  no digit is refused, and the decimal form of every integer, negative ones too, is
  accepted. A symbol that is not read as a frame leaves the collected messages as they
  are, and the result of the reassembly is the one for the scan without it.
\<close>

theorem frame_parsing:
  "(CHR ''|'' \<notin> set msg_id \<and> CHR ''|'' \<notin> set idx_str \<and> CHR ''|'' \<notin> set total_str \<longrightarrow>
      py_split CHR ''|'' 3 (msg_id @ ''|'' @ idx_str @ ''|'' @ total_str @ ''|'' @ chunk)
        = [msg_id, idx_str, total_str, chunk])
   \<and> (parse_frame (Some content) = Some (m, i, n, c) \<longleftrightarrow>
        (\<exists>is ns. content = m @ ''|'' @ is @ ''|'' @ ns @ ''|'' @ c
           \<and> CHR ''|'' \<notin> set m \<and> CHR ''|'' \<notin> set is \<and> CHR ''|'' \<notin> set ns
           \<and> py_int is = Some i \<and> py_int ns = Some n))
   \<and> (py_int s = Some v \<longrightarrow> (\<exists>x\<in>set s. is_digit x))
   \<and> py_int (py_str v) = Some v
   \<and> (parse_frame symbol = None \<longrightarrow>
        process_symbol messages symbol = messages
        \<and> collect_messages (before @ symbol # after) = collect_messages (before @ after)
        \<and> (before @ after \<noteq> [] \<longrightarrow>
             reassemble (before @ symbol # after) = reassemble (before @ after)))"
proof -
  have 1: "py_split CHR ''|'' 3 (msg_id @ ''|'' @ idx_str @ ''|'' @ total_str @ ''|'' @ chunk)
        = [msg_id, idx_str, total_str, chunk]"
    if "CHR ''|'' \<notin> set msg_id \<and> CHR ''|'' \<notin> set idx_str \<and> CHR ''|'' \<notin> set total_str"
    using that py_split_frame [of "CHR ''|''" msg_id idx_str total_str chunk] by simp
  note 2 = parse_frame_Some_iff [of content m i n c]
  have 3: "\<exists>x\<in>set s. is_digit x" if "py_int s = Some v"
    using that by (rule py_int_has_digit)
  note 4 = py_int_py_str [of v]
  note 5 = process_symbol_skip [of symbol messages]
    collect_messages_skip [of symbol before after] reassemble_skip [of symbol before after]
  show ?thesis using 1 2 3 4 5 by blast
qed

theorem frame_parsing_witness:
  "parse_frame (Some ''3f2a9c0e|1|3|x|y|'') = Some (''3f2a9c0e'', 1, 3, ''x|y|'')
   \<and> py_int ''3'' = Some 3
   \<and> parse_frame (Some ''3f2a9c0e|one|3|x'') = None
   \<and> parse_frame (Some ''3f2a9c0e|1|3'') = None
   \<and> reassemble [Some ''3f2a9c0e|0|1|x'', Some ''3f2a9c0e|one|3|x'']
       = reassemble [Some ''3f2a9c0e|0|1|x'']"
proof -
  have a: "parse_frame (Some ''3f2a9c0e|1|3|x|y|'') = Some (''3f2a9c0e'', 1, 3, ''x|y|'')"
    by code_simp
  have b: "py_int ''3'' = Some 3" by code_simp
  have c: "parse_frame (Some ''3f2a9c0e|one|3|x'') = None" by code_simp
  have d: "parse_frame (Some ''3f2a9c0e|1|3'') = None" by code_simp
  have e: "[Some ''3f2a9c0e|0|1|x''] @ [] \<noteq> []" by simp
  from frame_parsing [where symbol = "Some ''3f2a9c0e|one|3|x''"
      and before = "[Some ''3f2a9c0e|0|1|x'']" and after = "[]"] c e
  have "reassemble ([Some ''3f2a9c0e|0|1|x''] @ Some ''3f2a9c0e|one|3|x'' # [])
       = reassemble ([Some ''3f2a9c0e|0|1|x''] @ [])"
    by blast
  then show ?thesis using a b c d by simp
qed

text \<open>
  The claim as stated asks for a non-negative index and total. A frame with index
  \<open>-1\<close> is read, not skipped (the decode reports a missing chunk where skipping the
  only symbol gives an invalid format), and so is a frame with total \<open>-5\<close>, for which
  the reassembly returns the empty payload.
\<close>

theorem negative_index_accepted_counterexample:
  "parse_frame (Some ''3f2a9c0e|-1|1|x'') = Some (''3f2a9c0e'', - 1, 1, ''x'')
   \<and> reassemble [Some ''3f2a9c0e|-1|1|x''] = (None, Some ''Missing QR chunks: [0]'')
   \<and> parse_frame (Some ''3f2a9c0e|0|-5|x'') = Some (''3f2a9c0e'', 0, - 5, ''x'')
   \<and> reassemble [Some ''3f2a9c0e|0|-5|x''] = (Some '''', None)"
  by code_simp

section \<open>Encoding, then decoding\<close>

lemma build_images_fit:
  assumes "\<forall>(idx, chunk)\<in>set ics. qr_fits e (frame_string mid idx n chunk)"
  shows "build_images e mid n True ics =
     Inr (map (\<lambda>(idx, chunk).
                 \<lparr>qr_data = frame_string mid idx n chunk,
                  label = Some (py_str (int idx + 1) @ ''/'' @ py_str (int n))\<rparr>) ics)"
  using assms
  by (induction ics) (auto simp: make_qr_image_def add_index_label_def)

lemma build_images_overflow:
  assumes "(idx, chunk) \<in> set ics" and "\<not> qr_fits e (frame_string mid idx n chunk)"
  shows "build_images e mid n add_labels ics = Inl DataOverflowError"
  using assms
  by (induction ics) (auto simp: make_qr_image_def split: sum.splits)

lemma parse_frame_string:
  assumes "CHR ''|'' \<notin> set mid"
  shows "parse_frame (Some (frame_string mid idx n chunk)) = Some (mid, int idx, int n, chunk)"
  unfolding parse_frame_Some_iff frame_string_def
  using assms py_str_nat_no_bar py_int_py_str by blast

lemma upto_as_upt: "[0..int n - 1] = map int [0..<n]"
proof (induction n)
  case 0
  then show ?case by simp
next
  case (Suc n)
  have "[0..int (Suc n) - 1] = [0..int n]" by simp
  also have "\<dots> = [0..int n - 1] @ [int n]" by (simp add: upto_rec2)
  finally show ?case using Suc by simp
qed

lemma map_of_functional:
  assumes "(k, v) \<in> set xs" and "\<forall>v'. (k, v') \<in> set xs \<longrightarrow> v' = v"
  shows "map_of xs k = Some v"
proof -
  from assms(1) obtain v' where "map_of xs k = Some v'" by (metis weak_map_of_SomeI)
  moreover from this have "(k, v') \<in> set xs" by (rule map_of_SomeD)
  ultimately show ?thesis using assms(2) by simp
qed

lemma set_scanned_frames:
  "set (scanned_frames decoded) = {y. \<exists>s\<in>set decoded. parse_frame s = Some y}"
  by (induction decoded)
     (auto simp: scanned_frames_def List.map_filter_simps split: option.splits)

lemma reassemble_encoded_frames:
  assumes bar: "CHR ''|'' \<notin> set mid"
    and ne: "chunks \<noteq> []"
    and scan: "set decoded =
       (\<lambda>(idx, chunk). Some (frame_string mid idx (length chunks) chunk)) ` set (enumerate 0 chunks)"
  shows "reassemble decoded = (Some (concat chunks), None)"
proof -
  let ?n = "length chunks"
  let ?fr = "\<lambda>(idx, chunk). (mid, int idx, int ?n, chunk)"
  have frames_set: "set (scanned_frames decoded) = ?fr ` set (enumerate 0 chunks)"
  proof (intro set_eqI iffI)
    fix y assume "y \<in> set (scanned_frames decoded)"
    then obtain s where s: "s \<in> set decoded" "parse_frame s = Some y"
      by (auto simp: set_scanned_frames)
    from s(1) obtain idx chunk where ic: "(idx, chunk) \<in> set (enumerate 0 chunks)"
      "s = Some (frame_string mid idx ?n chunk)" unfolding scan by auto
    then have "y = ?fr (idx, chunk)" using s(2) parse_frame_string [OF bar] by simp
    then show "y \<in> ?fr ` set (enumerate 0 chunks)" using ic(1) by blast
  next
    fix y assume "y \<in> ?fr ` set (enumerate 0 chunks)"
    then obtain idx chunk where ic: "(idx, chunk) \<in> set (enumerate 0 chunks)"
      "y = (mid, int idx, int ?n, chunk)" by auto
    then have "Some (frame_string mid idx ?n chunk) \<in> set decoded" unfolding scan by force
    moreover have "parse_frame (Some (frame_string mid idx ?n chunk)) = Some y"
      using ic(2) parse_frame_string [OF bar] by simp
    ultimately show "y \<in> set (scanned_frames decoded)"
      by (auto simp: set_scanned_frames)
  qed
  have "(0, chunks ! 0) \<in> set (enumerate 0 chunks)" using ne by (simp add: in_set_enumerate_eq)
  then have "scanned_frames decoded \<noteq> []" using frames_set by auto
  then obtain f rest where fr: "scanned_frames decoded = f # rest"
    by (cases "scanned_frames decoded") auto
  then have "f \<in> ?fr ` set (enumerate 0 chunks)" using frames_set by auto
  then obtain i0 c0 where f: "f = (mid, i0, int ?n, c0)" by auto
  note sel = reassemble_selected [OF fr [unfolded f]]
  have sel_set: "set (frames_of mid (scanned_frames decoded)) =
      (\<lambda>(idx, chunk). (int idx, chunk)) ` set (enumerate 0 chunks)"
    unfolding frames_of_def by (auto simp: frames_set image_iff) force
  have part: "last_chunk mid (scanned_frames decoded) (int k) = Some (chunks ! k)" if "k < ?n" for k
  proof -
    have "(k, chunks ! k) \<in> set (enumerate 0 chunks)"
      using that by (simp add: in_set_enumerate_eq)
    then have "(int k, chunks ! k) \<in> set (rev (frames_of mid (scanned_frames decoded)))"
      unfolding set_rev sel_set by force
    moreover have "\<forall>v'. (int k, v') \<in> set (rev (frames_of mid (scanned_frames decoded)))
        \<longrightarrow> v' = chunks ! k"
      by (auto simp: sel_set in_set_enumerate_eq)
    ultimately show ?thesis unfolding last_chunk_def by (rule map_of_functional)
  qed
  have miss: "filter (\<lambda>i. last_chunk mid (scanned_frames decoded) i = None) [0..int ?n - 1] = []"
    by (auto simp: upto_as_upt filter_empty_conv part)
  have "map (\<lambda>i. case last_chunk mid (scanned_frames decoded) i of Some c \<Rightarrow> c | None \<Rightarrow> [])
          [0..int ?n - 1] = map (\<lambda>k. chunks ! k) [0..<?n]"
    by (simp add: upto_as_upt part)
  also have "\<dots> = chunks" by (rule map_nth)
  finally show ?thesis using sel miss by (simp add: Let_def)
qed


lemma build_big_qr_image_ok:
  assumes cs: "0 < chunk_size"
    and chunks: "chunk_text payload chunk_size = Inr chunks"
    and ne: "payload \<noteq> []"
    and fits: "\<forall>k<length chunks.
        qr_fits e (frame_string (take 8 (uuid4_hex e)) k (length chunks) (chunks ! k))"
  shows "build_big_qr_image e payload chunk_size True =
      Inr (map (\<lambda>(idx, chunk).
                  \<lparr>qr_data = frame_string (take 8 (uuid4_hex e)) idx (length chunks) chunk,
                   label = Some (py_str (int idx + 1) @ ''/'' @ py_str (int (length chunks)))\<rparr>)
             (enumerate 0 chunks))"
    and "concat chunks = payload" and "chunks \<noteq> []"
proof -
  have n: "0 < nat chunk_size" using cs by simp
  have "chunks = map (\<lambda>i. take (nat chunk_size) (drop i payload))
      (py_range 0 (length payload) (nat chunk_size))"
    using chunks cs by (simp add: chunk_text_def)
  then show c: "concat chunks = payload"
    using slices_props(1) [OF n, of payload] by simp
  then show ne': "chunks \<noteq> []" using ne by auto
  have "\<forall>(idx, chunk)\<in>set (enumerate 0 chunks).
      qr_fits e (frame_string (take 8 (uuid4_hex e)) idx (length chunks) chunk)"
    using fits by (auto simp: in_set_enumerate_eq)
  from build_images_fit [OF this] ne'
  show "build_big_qr_image e payload chunk_size True =
      Inr (map (\<lambda>(idx, chunk).
                  \<lparr>qr_data = frame_string (take 8 (uuid4_hex e)) idx (length chunks) chunk,
                   label = Some (py_str (int idx + 1) @ ''/'' @ py_str (int (length chunks)))\<rparr>)
             (enumerate 0 chunks))"
    by (cases chunks) (simp_all add: build_big_qr_image_def chunks tile_images_def Let_def)
qed

lemma decode_built_image:
  assumes cs: "0 < chunk_size"
    and chunks: "chunk_text payload chunk_size = Inr chunks"
    and ne: "payload \<noteq> []"
    and fits: "\<forall>k<length chunks.
        qr_fits e (frame_string (take 8 (uuid4_hex e)) k (length chunks) (chunks ! k))"
    and hex: "set (uuid4_hex e) \<subseteq> set ''0123456789abcdef''"
    and scan: "\<forall>img. build_big_qr_image e payload chunk_size True = Inr img
        \<longrightarrow> set (decode_qr e img) = (\<lambda>t. Some (qr_data t)) ` set img"
  shows "\<exists>img. build_big_qr_image e payload chunk_size True = Inr img
      \<and> map qr_data img =
          map (\<lambda>(idx, chunk). frame_string (take 8 (uuid4_hex e)) idx (length chunks) chunk)
            (enumerate 0 chunks)
      \<and> decode_big_image e img = (Some payload, None)"
proof -
  let ?mid = "take 8 (uuid4_hex e)"
  let ?img = "map (\<lambda>(idx, chunk).
                  \<lparr>qr_data = frame_string ?mid idx (length chunks) chunk,
                   label = Some (py_str (int idx + 1) @ ''/'' @ py_str (int (length chunks)))\<rparr>)
             (enumerate 0 chunks)"
  note ok = build_big_qr_image_ok [OF cs chunks ne fits]
  have "set ?mid \<subseteq> set (uuid4_hex e)" by (rule set_take_subset)
  then have bar: "CHR ''|'' \<notin> set ?mid" using hex by auto
  have "set (decode_qr e ?img) = (\<lambda>t. Some (qr_data t)) ` set ?img"
    using scan ok(1) by blast
  also have "\<dots> = (\<lambda>(idx, chunk). Some (frame_string ?mid idx (length chunks) chunk))
      ` set (enumerate 0 chunks)"
    by (simp add: image_image case_prod_unfold)
  finally have "reassemble (decode_qr e ?img) = (Some (concat chunks), None)"
    using reassemble_encoded_frames [OF bar ok(3)] by blast
  then have "decode_big_image e ?img = (Some payload, None)"
    by (simp add: decode_big_image_def ok(2))
  moreover have "map qr_data ?img =
      map (\<lambda>(idx, chunk). frame_string ?mid idx (length chunks) chunk) (enumerate 0 chunks)"
    by (simp add: case_prod_unfold)
  ultimately show ?thesis using ok(1) by blast
qed

text \<open>
  Claim C4, as the code has it. When the chunk size is not positive the encode
  operation returns no image, whatever the text and the passphrase: it raises the
  \<^verbatim>\<open>ValueError\<close> of the chunker, unless the text or the passphrase cannot be encoded,
  which raises before the chunker is reached. For a positive chunk size and any text
  that can be encoded, the empty one too, it returns an image with one symbol per chunk
  of the payload, provided the payload is not empty and the QR library fits every
  frame.
\<close>

theorem encode_validation:
  "(chunk_size \<le> 0 \<longrightarrow>
      (\<exists>ex. encode_text_to_big_qr_file e text chunk_size passphrase = Inl ex)
      \<and> encode_text_to_big_qr_file e text chunk_size passphrase =
          (case wrap_payload_with_checksum e text of
             Inl ex \<Rightarrow> Inl ex
           | Inr wrapped \<Rightarrow>
               (case maybe_encrypt e wrapped passphrase of
                  Inl ex \<Rightarrow> Inl ex
                | Inr payload \<Rightarrow> Inl (ValueError ''chunk_size must be positive''))))
   \<and> (0 < chunk_size
      \<and> wrap_payload_with_checksum e text = Inr wrapped
      \<and> maybe_encrypt e wrapped passphrase = Inr payload
      \<and> chunk_text payload chunk_size = Inr chunks
      \<and> payload \<noteq> []
      \<and> (\<forall>k<length chunks.
            qr_fits e (frame_string (take 8 (uuid4_hex e)) k (length chunks) (chunks ! k)))
      \<longrightarrow> (\<exists>img. encode_text_to_big_qr_file e text chunk_size passphrase = Inr img
            \<and> img \<noteq> []
            \<and> map qr_data img =
                map (\<lambda>(idx, chunk).
                       frame_string (take 8 (uuid4_hex e)) idx (length chunks) chunk)
                  (enumerate 0 chunks)))"
proof -
  have b: "build_big_qr_image e p chunk_size True = Inl (ValueError ''chunk_size must be positive'')"
    if "chunk_size \<le> 0" for p
    using that by (simp add: build_big_qr_image_def chunk_text_def)
  have 1: "encode_text_to_big_qr_file e text chunk_size passphrase =
          (case wrap_payload_with_checksum e text of
             Inl ex \<Rightarrow> Inl ex
           | Inr wrapped \<Rightarrow>
               (case maybe_encrypt e wrapped passphrase of
                  Inl ex \<Rightarrow> Inl ex
                | Inr payload \<Rightarrow> Inl (ValueError ''chunk_size must be positive'')))"
    if "chunk_size \<le> 0"
    by (simp add: encode_text_to_big_qr_file_def b [OF that] split: sum.splits)
  have fails: "\<exists>ex. encode_text_to_big_qr_file e text chunk_size passphrase = Inl ex"
    if "chunk_size \<le> 0"
    unfolding 1 [OF that] by (auto split: sum.splits)
  have 2: "\<exists>img. encode_text_to_big_qr_file e text chunk_size passphrase = Inr img
            \<and> img \<noteq> []
            \<and> map qr_data img =
                map (\<lambda>(idx, chunk).
                       frame_string (take 8 (uuid4_hex e)) idx (length chunks) chunk)
                  (enumerate 0 chunks)"
    if cs: "0 < chunk_size"
      and w: "wrap_payload_with_checksum e text = Inr wrapped"
      and p: "maybe_encrypt e wrapped passphrase = Inr payload"
      and chunks: "chunk_text payload chunk_size = Inr chunks"
      and ne: "payload \<noteq> []"
      and fits: "\<forall>k<length chunks.
            qr_fits e (frame_string (take 8 (uuid4_hex e)) k (length chunks) (chunks ! k))"
  proof -
    note ok = build_big_qr_image_ok [OF cs chunks ne fits]
    show ?thesis
      using ok(3)
      by (cases chunks)
         (simp_all add: encode_text_to_big_qr_file_def w p ok(1) case_prod_unfold)
  qed
  show ?thesis using 1 fails 2 by blast
qed

theorem encode_validation_witness:
  "encode_text_to_big_qr_file demo_env ''hello world'' 0 None
     = Inl (ValueError ''chunk_size must be positive'')
   \<and> encode_text_to_big_qr_file demo_env ''hello world'' (- 3) (Some ''pw'')
     = Inl (ValueError ''chunk_size must be positive'')
   \<and> wrap_payload_with_checksum demo_env ''hi'' = Inr ''{2,hi}''
   \<and> maybe_encrypt demo_env ''{2,hi}'' None = Inr ''{2,hi}''
   \<and> chunk_text ''{2,hi}'' 4 = Inr [''{2,h'', ''i}'']
   \<and> (\<exists>img. encode_text_to_big_qr_file demo_env ''hi'' 4 None = Inr img
        \<and> map qr_data img = [''3f2a9c0e|0|2|{2,h'', ''3f2a9c0e|1|2|i}''])"
proof -
  have a: "(0::int) \<le> 0" "(- 3::int) \<le> 0" by simp_all
  have w1: "wrap_payload_with_checksum demo_env ''hello world'' = Inr ''{11,hello world}''"
    by code_simp
  have m1: "maybe_encrypt demo_env ''{11,hello world}'' None = Inr ''{11,hello world}''"
    "maybe_encrypt demo_env ''{11,hello world}'' (Some ''pw'') = Inr ''wp:{11,hello world}''"
    by code_simp+
  from encode_validation [of 0 demo_env "''hello world''" None, THEN conjunct1,
      rule_format, OF a(1), THEN conjunct2]
  have t1: "encode_text_to_big_qr_file demo_env ''hello world'' 0 None
     = Inl (ValueError ''chunk_size must be positive'')"
    by (simp add: w1 m1)
  from encode_validation [of "- 3" demo_env "''hello world''" "Some ''pw''", THEN conjunct1,
      rule_format, OF a(2), THEN conjunct2]
  have t2: "encode_text_to_big_qr_file demo_env ''hello world'' (- 3) (Some ''pw'')
     = Inl (ValueError ''chunk_size must be positive'')"
    by (simp add: w1 m1)
  have w: "wrap_payload_with_checksum demo_env ''hi'' = Inr ''{2,hi}''"
    by code_simp
  have p: "maybe_encrypt demo_env ''{2,hi}'' None = Inr ''{2,hi}''"
    by code_simp
  have c: "chunk_text ''{2,hi}'' 4 = Inr [''{2,h'', ''i}'']"
    by (simp add: chunk_text_def py_range.simps)
  have f: "\<forall>k<length [''{2,h'', ''i}''].
      qr_fits demo_env (frame_string (take 8 (uuid4_hex demo_env)) k
         (length [''{2,h'', ''i}'']) ([''{2,h'', ''i}''] ! k))"
    by (simp add: demo_env_def frame_string_def py_str_def digit_char_def str_nat.simps
        All_less_Suc)
  have h: "(0::int) < 4
      \<and> wrap_payload_with_checksum demo_env ''hi'' = Inr ''{2,hi}''
      \<and> maybe_encrypt demo_env ''{2,hi}'' None = Inr ''{2,hi}''
      \<and> chunk_text ''{2,hi}'' 4 = Inr [''{2,h'', ''i}'']
      \<and> ''{2,hi}'' \<noteq> []
      \<and> (\<forall>k<length [''{2,h'', ''i}''].
      qr_fits demo_env (frame_string (take 8 (uuid4_hex demo_env)) k
         (length [''{2,h'', ''i}'']) ([''{2,h'', ''i}''] ! k)))"
    using w p c f by simp
  note t3 = encode_validation [of 4 demo_env "''hi''" None "''{2,hi}''" "''{2,hi}''"
      "[''{2,h'', ''i}'']", THEN conjunct2, rule_format, OF h]
  have fr: "map (\<lambda>(idx, chunk). frame_string (take 8 (uuid4_hex demo_env)) idx
       (length [''{2,h'', ''i}'']) chunk) (enumerate 0 [''{2,h'', ''i}''])
     = [''3f2a9c0e|0|2|{2,h'', ''3f2a9c0e|1|2|i}'']"
    by code_simp
  show ?thesis using t1 t2 t3 w p c unfolding fr by auto
qed

text \<open>
  The claim as stated also asks for a failure on the empty text. The encode operation
  does not look at the text: the envelope of the empty text is encoded like any other.
\<close>

theorem empty_text_encodes_counterexample:
  "encode_text_to_big_qr_file demo_env '''' 5 None
     = Inr [\<lparr>qr_data = ''3f2a9c0e|0|1|{0,}'', label = Some ''1/1''\<rparr>]"
  by code_simp

text \<open>The instance of the libraries satisfies what the next two theorems ask of them.\<close>

lemma demo_encode_pw:
  "encode_text_to_big_qr_file demo_env ''hello world'' 5 (Some ''pw'')
     = Inr [\<lparr>qr_data = ''3f2a9c0e|0|4|wp:{1'', label = Some ''1/4''\<rparr>,
            \<lparr>qr_data = ''3f2a9c0e|1|4|1,hel'', label = Some ''2/4''\<rparr>,
            \<lparr>qr_data = ''3f2a9c0e|2|4|lo wo'', label = Some ''3/4''\<rparr>,
            \<lparr>qr_data = ''3f2a9c0e|3|4|rld}'', label = Some ''4/4''\<rparr>]"
  by code_simp

lemma demo_contracts:
  "(0::int) < 5"
  "wrap_payload_with_checksum demo_env ''hello world'' = Inr ''{11,hello world}''"
  "maybe_encrypt demo_env ''{11,hello world}'' (Some ''pw'') = Inr ''wp:{11,hello world}''"
  "''wp:{11,hello world}'' \<noteq> []"
  "set (uuid4_hex demo_env) \<subseteq> set ''0123456789abcdef''"
  "chunk_text ''wp:{11,hello world}'' 5 = Inr [''wp:{1'', ''1,hel'', ''lo wo'', ''rld}'']"
  "\<forall>k<length [''wp:{1'', ''1,hel'', ''lo wo'', ''rld}''].
      qr_fits demo_env (frame_string (take 8 (uuid4_hex demo_env)) k
        (length [''wp:{1'', ''1,hel'', ''lo wo'', ''rld}''])
        ([''wp:{1'', ''1,hel'', ''lo wo'', ''rld}''] ! k))"
  "\<forall>img. encode_text_to_big_qr_file demo_env ''hello world'' 5 (Some ''pw'') = Inr img
      \<longrightarrow> set (decode_qr demo_env img) = (\<lambda>t. Some (qr_data t)) ` set img"
proof -
  show "(0::int) < 5" by simp
  show "wrap_payload_with_checksum demo_env ''hello world'' = Inr ''{11,hello world}''"
    by code_simp
  show "maybe_encrypt demo_env ''{11,hello world}'' (Some ''pw'') = Inr ''wp:{11,hello world}''"
    by code_simp
  show "''wp:{11,hello world}'' \<noteq> []" by simp
  show "set (uuid4_hex demo_env) \<subseteq> set ''0123456789abcdef''"
    by (simp add: demo_env_def)
  show "chunk_text ''wp:{11,hello world}'' 5 = Inr [''wp:{1'', ''1,hel'', ''lo wo'', ''rld}'']"
    by (simp add: chunk_text_def py_range.simps)
  show "\<forall>k<length [''wp:{1'', ''1,hel'', ''lo wo'', ''rld}''].
      qr_fits demo_env (frame_string (take 8 (uuid4_hex demo_env)) k
        (length [''wp:{1'', ''1,hel'', ''lo wo'', ''rld}''])
        ([''wp:{1'', ''1,hel'', ''lo wo'', ''rld}''] ! k))"
    by (simp add: demo_env_def frame_string_def py_str_def digit_char_def str_nat.simps
        All_less_Suc)
  show "\<forall>img. encode_text_to_big_qr_file demo_env ''hello world'' 5 (Some ''pw'') = Inr img
      \<longrightarrow> set (decode_qr demo_env img) = (\<lambda>t. Some (qr_data t)) ` set img"
    by (simp add: demo_env_def)
qed

lemma encode_is_build:
  assumes "wrap_payload_with_checksum e text = Inr wrapped"
    and "maybe_encrypt e wrapped passphrase = Inr payload"
  shows "encode_text_to_big_qr_file e text chunk_size passphrase
      = build_big_qr_image e payload chunk_size True"
  by (simp add: encode_text_to_big_qr_file_def assms)

text \<open>
  Claim C1, as the code has it. For every text that can be encoded, every positive
  chunk size whose frames each fit a QR symbol and every passphrase (none and the
  empty one too) under which the envelope is encrypted, the encode operation returns
  an image, and decoding that image with the same passphrase returns the text, its
  SHA-256 digest and no error. The libraries are asked to do their part:
  \<^verbatim>\<open>json.loads\<close> reads back the envelope that \<^verbatim>\<open>json.dumps\<close> wrote, a token can be
  encoded and Fernet decrypts it under the key it was made with, the payload is not
  the empty string, \<^verbatim>\<open>uuid4().hex\<close> is made of hexadecimal digits, and the scanner
  finds the symbols of the image, in any order and any number of times each.
\<close>

theorem round_trip:
  assumes cs: "0 < chunk_size"
    and enc: "encode_utf8 e text = Some tb"
    and wrapped: "wrap_payload_with_checksum e text = Inr wrapped"
    and json: "json_loads e wrapped =
        Some (JObject [(''hash'', JString (sha256_hexdigest e tb)), (''text'', JString text)])"
    and payload: "maybe_encrypt e wrapped passphrase = Inr payload"
    and fernet: "\<forall>p key. passphrase = Some p \<and> p \<noteq> [] \<and> get_fernet e p = Inr key \<longrightarrow>
        (\<exists>cb. encode_utf8 e payload = Some cb \<and> fernet_decrypt e key cb = Plaintext wrapped)"
    and ne: "payload \<noteq> []"
    and hex: "set (uuid4_hex e) \<subseteq> set ''0123456789abcdef''"
    and chunks: "chunk_text payload chunk_size = Inr chunks"
    and fits: "\<forall>k<length chunks.
        qr_fits e (frame_string (take 8 (uuid4_hex e)) k (length chunks) (chunks ! k))"
    and scan: "\<forall>img. encode_text_to_big_qr_file e text chunk_size passphrase = Inr img
        \<longrightarrow> set (decode_qr e img) = (\<lambda>t. Some (qr_data t)) ` set img"
  shows "\<exists>img. encode_text_to_big_qr_file e text chunk_size passphrase = Inr img
     \<and> decode_big_qr_to_text e (ImageFile img) passphrase
         = Inr (Some text, Some (sha256_hexdigest e tb), None)"
proof -
  note enc_build = encode_is_build [OF wrapped payload, of chunk_size]
  from decode_built_image [OF cs chunks ne fits hex scan [unfolded enc_build]]
  obtain img where img: "build_big_qr_image e payload chunk_size True = Inr img"
    and dec: "decode_big_image e img = (Some payload, None)" by blast
  have decrypt: "maybe_decrypt e payload passphrase = Inr (Some wrapped, None)"
  proof (cases "truthy passphrase")
    case True
    then obtain p where p: "passphrase = Some p" "p \<noteq> []" by (auto simp: truthy_def)
    with payload obtain key where key: "get_fernet e p = Inr key"
      by (auto simp: maybe_encrypt_def split: sum.splits)
    with fernet p obtain cb where "encode_utf8 e payload = Some cb"
      "fernet_decrypt e key cb = Plaintext wrapped" by blast
    with p key show ?thesis by (simp add: maybe_decrypt_def)
  next
    case False
    with payload show ?thesis
      by (auto simp: truthy_def maybe_decrypt_def maybe_encrypt_def split: option.splits)
  qed
  have unwrap: "unwrap_and_verify_payload e wrapped
      = Inr (Some text, Some (sha256_hexdigest e tb), None)"
    using unwrap_object [OF json, of "sha256_hexdigest e tb" "text"] enc by simp
  have "decode_big_qr_to_text e (ImageFile img) passphrase
      = Inr (Some text, Some (sha256_hexdigest e tb), None)"
    by (simp add: decode_big_qr_to_text_def dec decrypt unwrap truthy_def)
  with img enc_build show ?thesis by simp
qed

theorem round_trip_witness:
  "(0::int) < 5
   \<and> encode_utf8 demo_env ''hello world'' = Some ''hello world''
   \<and> encode_text_to_big_qr_file demo_env ''hello world'' 5 (Some ''pw'')
     = Inr [\<lparr>qr_data = ''3f2a9c0e|0|4|wp:{1'', label = Some ''1/4''\<rparr>,
            \<lparr>qr_data = ''3f2a9c0e|1|4|1,hel'', label = Some ''2/4''\<rparr>,
            \<lparr>qr_data = ''3f2a9c0e|2|4|lo wo'', label = Some ''3/4''\<rparr>,
            \<lparr>qr_data = ''3f2a9c0e|3|4|rld}'', label = Some ''4/4''\<rparr>]
   \<and> decode_big_qr_to_text demo_env
        (ImageFile [\<lparr>qr_data = ''3f2a9c0e|0|4|wp:{1'', label = Some ''1/4''\<rparr>,
            \<lparr>qr_data = ''3f2a9c0e|1|4|1,hel'', label = Some ''2/4''\<rparr>,
            \<lparr>qr_data = ''3f2a9c0e|2|4|lo wo'', label = Some ''3/4''\<rparr>,
            \<lparr>qr_data = ''3f2a9c0e|3|4|rld}'', label = Some ''4/4''\<rparr>]) (Some ''pw'')
     = Inr (Some ''hello world'', Some ''11'', None)"
proof -
  have enc: "encode_utf8 demo_env ''hello world'' = Some ''hello world''"
    by (simp add: demo_env_def demo_encode_def)
  have json: "json_loads demo_env ''{11,hello world}'' =
      Some (JObject [(''hash'', JString (sha256_hexdigest demo_env ''hello world'')),
                     (''text'', JString ''hello world'')])"
    by code_simp
  have fernet: "\<forall>p key. Some ''pw'' = Some p \<and> p \<noteq> [] \<and> get_fernet demo_env p = Inr key \<longrightarrow>
      (\<exists>cb. encode_utf8 demo_env ''wp:{11,hello world}'' = Some cb
         \<and> fernet_decrypt demo_env key cb = Plaintext ''{11,hello world}'')"
  proof -
    have k: "get_fernet demo_env ''pw'' = Inr ''wp''" by code_simp
    have c: "encode_utf8 demo_env ''wp:{11,hello world}'' = Some ''wp:{11,hello world}''"
      by (simp add: demo_env_def demo_encode_def)
    have d: "fernet_decrypt demo_env ''wp'' ''wp:{11,hello world}'' = Plaintext ''{11,hello world}''"
      by code_simp
    show ?thesis using k c d by auto
  qed
  have sha: "sha256_hexdigest demo_env ''hello world'' = ''11''" by code_simp
  from round_trip [OF demo_contracts(1) enc demo_contracts(2) json demo_contracts(3) fernet
      demo_contracts(4,5,6,7,8)]
  show ?thesis
    unfolding demo_encode_pw sha using enc by simp
qed

text \<open>
  The claim as stated, for every positive chunk size, fails where a frame is beyond
  the capacity of a QR symbol: for a text of 1700 characters and a chunk size of 2000
  the one frame has more than 1663 characters, and the encode operation raises the
  error of the QR library instead of returning an image.
\<close>

theorem oversized_frame_counterexample:
  "(0::int) < 2000
   \<and> replicate 1700 CHR ''a'' \<noteq> []
   \<and> encode_text_to_big_qr_file demo_env (replicate 1700 CHR ''a'') 2000 None
       = Inl DataOverflowError"
proof -
  define t where "t = replicate 1700 CHR ''a''"
  define p where "p = ''{1700,'' @ t @ ''}''"
  have lt: "length t = 1700" and lp: "length p = 1707" by (simp_all add: t_def p_def)
  have "CHR 0xFF \<notin> set t" by (simp add: t_def)
  then have w: "wrap_payload_with_checksum demo_env t = Inr p"
    by (simp add: wrap_payload_with_checksum_def demo_env_def demo_encode_def demo_dumps_def
        str_nat.simps digit_char_def lt p_def)
  have m: "maybe_encrypt demo_env p None = Inr p" by (simp add: maybe_encrypt_def)
  have "p \<noteq> []" using lp by auto
  then have c: "chunk_text p 2000 = Inr [p]" by (intro chunk_text_single) (simp_all add: lp)
  have nf: "\<not> qr_fits demo_env (frame_string (take 8 (uuid4_hex demo_env)) 0 1 p)"
    by (simp add: demo_env_def frame_string_def lp)
  have "build_big_qr_image demo_env p 2000 True = Inl DataOverflowError"
    using nf by (simp add: build_big_qr_image_unfold c enumerate_simps make_qr_image_def)
  then have "encode_text_to_big_qr_file demo_env t 2000 None = Inl DataOverflowError"
    by (simp add: encode_text_to_big_qr_file_def w m)
  then show ?thesis by (simp add: t_def)
qed




end
